theory Spec2Isabelle
  imports Main "HOL-Library.AList"
begin

section \<open>Go values shared by the whole development\<close>

text \<open>
  A Go \<open>error\<close> value is represented by the message its \<open>Error()\<close> method returns;
  \<open>fmt.Errorf\<close> with \<open>%s\<close>, \<open>%d\<close>, \<open>%w\<close> and \<open>%v\<close> verbs is string concatenation.
  Go strings are byte sequences, as \<open>string\<close> is here.
\<close>

datatype error = Err string

fun Error :: "error \<Rightarrow> string" where
  "Error (Err m) = m"

definition HasPrefix :: "string \<Rightarrow> string \<Rightarrow> bool" where
  "HasPrefix s p = (take (length p) s = p)"

fun strings_Join :: "string list \<Rightarrow> string \<Rightarrow> string" where
  "strings_Join [] sep = []"
| "strings_Join [e] sep = e"
| "strings_Join (e # es) sep = e @ sep @ strings_Join es sep"

text \<open>The process environment read by \<open>os.Getwd\<close> and \<open>os.UserHomeDir\<close>.\<close>

record env =
  Getwd :: "error + string"
  UserHomeDir :: "error + string"

section \<open>path/filepath on a Unix target\<close>

text \<open>
  The functions of Go's \<open>path/filepath\<close> that the repository calls, for a target whose
  separator is the slash and whose volume names are empty. Loops over byte indices are
  recursive functions over the unread rest of the string and the bytes written so far.
\<close>

definition Separator :: char where
  "Separator = CHR ''/''"

definition IsPathSeparator :: "char \<Rightarrow> bool" where
  "IsPathSeparator c = (c = Separator)"

text \<open>\<open>Base\<close>: strip trailing separators, then keep what follows the last separator.\<close>

function strip_trailing :: "string \<Rightarrow> string" where
  "strip_trailing path =
     (if length path > 0 \<and> IsPathSeparator (last path) then strip_trailing (butlast path)
      else path)"
  by pat_completeness auto
termination
  by (relation "measure length") auto

fun last_element_start :: "string \<Rightarrow> nat \<Rightarrow> nat" where
  "last_element_start path 0 = 0"
| "last_element_start path (Suc i) =
     (if \<not> IsPathSeparator (path ! i) then last_element_start path i else Suc i)"

definition Base :: "string \<Rightarrow> string" where
  "Base path =
     (if path = [] then ''.''
      else
        let path1 = strip_trailing path;
            path2 = drop (last_element_start path1 (length path1)) path1
        in if path2 = [] then [Separator] else path2)"

text \<open>
  \<open>Clean\<close>: \<open>clean_loop rooted rest out dotdot\<close> is the state of the main loop, with
  \<open>rest\<close> the unread bytes \<open>path[r:]\<close> and \<open>out\<close> the first \<open>w\<close> bytes of the buffer.
\<close>

fun backtrack_loop :: "string \<Rightarrow> nat \<Rightarrow> nat \<Rightarrow> nat" where
  "backtrack_loop buf dotdot w =
     (if w > dotdot \<and> \<not> IsPathSeparator (buf ! w) then backtrack_loop buf dotdot (w - 1)
      else w)"

definition backtrack :: "string \<Rightarrow> nat \<Rightarrow> string" where
  "backtrack out dotdot = take (backtrack_loop out dotdot (length out - 1)) out"

function clean_loop :: "bool \<Rightarrow> string \<Rightarrow> string \<Rightarrow> nat \<Rightarrow> string" where
  "clean_loop rooted rest out dotdot =
     (if rest = [] then out
      else if IsPathSeparator (hd rest) then clean_loop rooted (tl rest) out dotdot
      else if hd rest = CHR ''.'' \<and> (tl rest = [] \<or> IsPathSeparator (rest ! 1)) then
        clean_loop rooted (tl rest) out dotdot
      else if hd rest = CHR ''.'' \<and> rest ! 1 = CHR ''.''
              \<and> (length rest = 2 \<or> IsPathSeparator (rest ! 2)) then
        (if length out > dotdot then
           clean_loop rooted (drop 2 rest) (backtrack out dotdot) dotdot
         else if \<not> rooted then
           (let out' = (if length out > 0 then out @ [Separator] else out) @ ''..''
            in clean_loop rooted (drop 2 rest) out' (length out'))
         else clean_loop rooted (drop 2 rest) out dotdot)
      else
        (let out' = (if rooted \<and> length out \<noteq> 1 \<or> \<not> rooted \<and> length out \<noteq> 0
                     then out @ [Separator] else out)
         in clean_loop rooted (dropWhile (\<lambda>c. \<not> IsPathSeparator c) rest)
              (out' @ takeWhile (\<lambda>c. \<not> IsPathSeparator c) rest) dotdot))"
  by pat_completeness auto
termination
proof -
  have shorter: "length (dropWhile (\<lambda>c. \<not> IsPathSeparator c) rest) < length rest"
    if "rest \<noteq> []" "\<not> IsPathSeparator (hd rest)" for rest :: string
    using that by (cases rest) (auto simp: less_Suc_eq_le length_dropWhile_le)
  show ?thesis
    by (relation "measure (\<lambda>(rooted, rest, out, dotdot). length rest)")
       (auto intro: shorter)
qed

definition Clean :: "string \<Rightarrow> string" where
  "Clean path =
     (if path = [] then ''.''
      else
        let rooted = IsPathSeparator (hd path);
            out = (if rooted then clean_loop True (tl path) [Separator] 1
                   else clean_loop False path [] 0)
        in if out = [] then ''.'' else out)"

fun Join :: "string list \<Rightarrow> string" where
  "Join [] = []"
| "Join (e # es) = (if e \<noteq> [] then Clean (strings_Join (e # es) [Separator]) else Join es)"

definition IsAbs :: "string \<Rightarrow> bool" where
  "IsAbs path = HasPrefix path ''/''"

definition Abs :: "env \<Rightarrow> string \<Rightarrow> error + string" where
  "Abs e path =
     (if IsAbs path then Inr (Clean path)
      else case Getwd e of
             Inl err \<Rightarrow> Inl err
           | Inr wd \<Rightarrow> Inr (Join [wd, path]))"

text \<open>
  \<open>Rel\<close>: \<open>rel_loop base targ\<close> is the element-wise comparison loop, started with
  \<open>base[b0:]\<close> and \<open>targ[t0:]\<close>; it returns \<open>(base[b0:], base[b0:bi], targ[t0:])\<close>
  as they are when the loop ends. The comparison goes on while either path has bytes
  left, a path that is used up giving the empty element: when the target ends first and
  the next element of the base is \<open>..\<close>, that element is what the test after the loop
  sees, and \<open>Rel\<close> fails (\<open>Rel("../..", "..")\<close> is an error).
\<close>

function rel_loop :: "string \<Rightarrow> string \<Rightarrow> string \<times> string \<times> string" where
  "rel_loop base targ =
     (if length base > 0 \<or> length targ > 0 then
        (let belem = takeWhile (\<lambda>c. c \<noteq> Separator) base;
             telem = takeWhile (\<lambda>c. c \<noteq> Separator) targ
         in if telem \<noteq> belem then (base, belem, targ)
            else rel_loop (drop 1 (dropWhile (\<lambda>c. c \<noteq> Separator) base))
                          (drop 1 (dropWhile (\<lambda>c. c \<noteq> Separator) targ)))
      else (base, [], targ))"
  by pat_completeness auto
termination
proof -
  have le: "length (dropWhile (\<lambda>c. c \<noteq> Separator) p) - Suc 0 \<le> length p" for p :: string
    using length_dropWhile_le [of "\<lambda>c. c \<noteq> Separator" p] by simp
  have shorter: "length (dropWhile (\<lambda>c. c \<noteq> Separator) p) - Suc 0 < length p"
    if "p \<noteq> []" for p :: string
    using that length_dropWhile_le [of "\<lambda>c. c \<noteq> Separator" p]
    by (cases p) auto
  have "length (dropWhile (\<lambda>c. c \<noteq> Separator) base) - Suc 0
      + (length (dropWhile (\<lambda>c. c \<noteq> Separator) targ) - Suc 0) < length base + length targ"
    if "base \<noteq> [] \<or> targ \<noteq> []" for base targ :: string
    using that le [of base] le [of targ] shorter [of base] shorter [of targ]
    by (cases "base = []") auto
  then show ?thesis
    by (relation "measure (\<lambda>(base, targ). length base + length targ)") auto
qed

definition rel_error :: "string \<Rightarrow> string \<Rightarrow> error" where
  "rel_error basepath targpath =
     Err (''Rel: can'' @ [CHR 0x27] @ ''t make '' @ targpath @ '' relative to '' @ basepath)"

definition Rel :: "string \<Rightarrow> string \<Rightarrow> error + string" where
  "Rel basepath targpath =
     (let base = Clean basepath;
          targ = Clean targpath
      in if targ = base then Inr ''.''
         else
           let base = (if base = ''.'' then [] else base);
               baseSlashed = (length base > 0 \<and> hd base = Separator);
               targSlashed = (length targ > 0 \<and> hd targ = Separator)
           in if baseSlashed \<noteq> targSlashed then Inl (rel_error basepath targpath)
              else
                case rel_loop base targ of
                  (brest, belem, trest) \<Rightarrow>
                    if belem = ''..'' then Inl (rel_error basepath targpath)
                    else if brest \<noteq> [] then
                      Inr (''..''
                           @ concat (replicate (count_list brest Separator) (Separator # ''..''))
                           @ (if trest \<noteq> [] then Separator # trest else []))
                    else Inr trest)"

section \<open>The path validators and the tree filter\<close>

text \<open>
  \<open>ValidatePath\<close> of repository.go: the result is the relative path.
  \<open>traversal requestedPath\<close> is \<open>fmt.Errorf("path traversal detected: %s", requestedPath)\<close>.
\<close>

definition traversal :: "string \<Rightarrow> error" where
  "traversal requestedPath = Err (''path traversal detected: '' @ requestedPath)"

definition ValidatePath :: "env \<Rightarrow> string \<Rightarrow> string \<Rightarrow> error + string" where
  "ValidatePath e basePath requestedPath =
     (case Abs e basePath of
        Inl err \<Rightarrow> Inl err
      | Inr absBasePath \<Rightarrow>
          let targetPath = Join [absBasePath, requestedPath]
          in case Abs e targetPath of
               Inl err \<Rightarrow> Inl err
             | Inr absTargetPath \<Rightarrow>
                 (case Rel absBasePath absTargetPath of
                    Inl err \<Rightarrow> Inl (traversal requestedPath)
                  | Inr relPath \<Rightarrow>
                      if HasPrefix relPath ''..''
                      then Inl (traversal requestedPath)
                      else Inr relPath))"

text \<open>The legacy \<open>validatePath\<close> of main.go: the result is the absolute target path.\<close>

definition validatePath :: "env \<Rightarrow> string \<Rightarrow> string \<Rightarrow> error + string" where
  "validatePath e repoPath requestedPath =
     (case Abs e repoPath of
        Inl err \<Rightarrow> Inl err
      | Inr absRepoPath \<Rightarrow>
          let targetPath = Join [absRepoPath, requestedPath]
          in case Abs e targetPath of
               Inl err \<Rightarrow> Inl err
             | Inr absTargetPath \<Rightarrow>
                 (case Rel absRepoPath absTargetPath of
                    Inl err \<Rightarrow> Inl (traversal requestedPath)
                  | Inr relPath \<Rightarrow>
                      if HasPrefix relPath ''..''
                      then Inl (traversal requestedPath)
                      else Inr absTargetPath))"

definition shouldSkip :: "string \<Rightarrow> bool" where
  "shouldSkip path =
     (let base = Base path
      in if HasPrefix base ''.'' then True
         else if base = ''node_modules'' then True
         else False)"

section \<open>The read handlers of main.go\<close>

text \<open>
  The \<open>FileSystem\<close> interface, restricted to the methods the two read handlers call.
  \<open>getFileSystem\<close> is passed to the handlers as the outcome of the registry lookup.
\<close>

record FileInfo =
  Size :: int
  IsRegular :: bool
  IsDir :: bool

record DirEntry =
  entry_Name :: string
  entry_IsDir :: bool

text \<open>
  A \<open>filepath.WalkFunc\<close> gets the path and either the error or the file info of the
  entry, and returns \<open>nil\<close>, \<open>filepath.SkipDir\<close> or an error. The closures of the
  handlers append to a slice of names, which the model passes through.
\<close>

datatype walk_ret = WalkNil | SkipDir | WalkErr error

type_synonym WalkFunc = "string \<Rightarrow> error + FileInfo \<Rightarrow> string list \<Rightarrow> walk_ret \<times> string list"

record FileSystem =
  BasePath :: string
  Stat :: "string \<Rightarrow> error + FileInfo"
  ReadFile :: "string \<Rightarrow> error + string"
  ReadDir :: "string \<Rightarrow> error + DirEntry list"
  Walk :: "string \<Rightarrow> WalkFunc \<Rightarrow> string list \<Rightarrow> error option \<times> string list"

datatype argument = ArgString string | ArgBool bool | ArgOther

text \<open>
  \<open>ToolResultListing repo path files\<close> is the text result that holds
  \<open>json.MarshalIndent\<close> of the map with the entries \<open>repository\<close>, \<open>path\<close> and
  \<open>files\<close>.
\<close>

datatype CallToolResult =
    ToolResultText string
  | ToolResultError string
  | ToolResultListing string string "string list"

definition handleReadFile ::
  "env \<Rightarrow> (string \<Rightarrow> error + FileSystem) \<Rightarrow> (string \<rightharpoonup> argument) \<Rightarrow> CallToolResult" where
  "handleReadFile e getFileSystem arguments =
     (case arguments ''repo'' of
        Some (ArgString repo) \<Rightarrow>
          (case arguments ''file'' of
             Some (ArgString file) \<Rightarrow>
               (case getFileSystem repo of
                  Inl err \<Rightarrow> ToolResultError (Error err)
                | Inr fs \<Rightarrow>
                    (case ValidatePath e (BasePath fs) file of
                       Inl err \<Rightarrow> ToolResultError (Error err)
                     | Inr relPath \<Rightarrow>
                         (case Stat fs relPath of
                            Inl err \<Rightarrow> ToolResultError (''File does not exist: '' @ file)
                          | Inr info \<Rightarrow>
                              if \<not> IsRegular info
                              then ToolResultError (''Path is not a file: '' @ file)
                              else if shouldSkip relPath
                              then ToolResultError (''Access denied: '' @ file)
                              else
                                (case ReadFile fs relPath of
                                   Inl err \<Rightarrow> ToolResultError (Error err)
                                 | Inr content \<Rightarrow>
                                     ToolResultText
                                       (''File: '' @ repo @ ''/'' @ file
                                        @ [CHR 0x0A, CHR 0x0A] @ content)))))
           | _ \<Rightarrow> ToolResultError ''file parameter is required'')
      | _ \<Rightarrow> ToolResultError ''repo parameter is required'')"

text \<open>\<open>strings.SplitN(s, "/", 2)\<close>: cut at the first slash, if there is one.\<close>

definition SplitN2 :: "string \<Rightarrow> string list" where
  "SplitN2 s =
     (if CHR ''/'' \<in> set s
      then [takeWhile (\<lambda>c. c \<noteq> CHR ''/'') s, drop 1 (dropWhile (\<lambda>c. c \<noteq> CHR ''/'') s)]
      else [s])"

definition handleReadResourceTemplate ::
  "env \<Rightarrow> (string \<Rightarrow> error + FileSystem) \<Rightarrow> string \<Rightarrow> error + string" where
  "handleReadResourceTemplate e getFileSystem uri =
     (if \<not> HasPrefix uri ''repo://''
      then Inl (Err (''invalid URI scheme. Expected repo://, got: '' @ uri))
      else
        let uriParts = drop (length ''repo://'') uri;
            parts = SplitN2 uriParts
        in if length parts < 1 then Inl (Err (''invalid URI format: '' @ uri))
           else
             let repoName = parts ! 0;
                 file = (if length parts > 1 then parts ! 1 else [])
             in case getFileSystem repoName of
                  Inl err \<Rightarrow> Inl err
                | Inr fs \<Rightarrow>
                    if file = [] then Inl (Err ''no file path specified in URI'')
                    else
                      (case ValidatePath e (BasePath fs) file of
                         Inl err \<Rightarrow> Inl err
                       | Inr relPath \<Rightarrow>
                           (case Stat fs relPath of
                              Inl err \<Rightarrow> Inl (Err (''file does not exist: '' @ file))
                            | Inr info \<Rightarrow>
                                if \<not> IsRegular info
                                then Inl (Err (''path is not a file: '' @ file))
                                else if shouldSkip relPath
                                then Inl (Err (''access denied: '' @ file))
                                else
                                  (case ReadFile fs relPath of
                                     Inl err \<Rightarrow> Inl err
                                   | Inr content \<Rightarrow> Inr content))))"

text \<open>
  \<open>handleListFiles\<close> of main.go. \<open>list_visit\<close> is the closure given to \<open>fs.Walk\<close>,
  \<open>list_entries\<close> the loop over the entries of \<open>fs.ReadDir\<close>.
\<close>

definition list_visit :: "string \<Rightarrow> string \<Rightarrow> WalkFunc" where
  "list_visit basePath targetPath p info files =
     (case info of
        Inl err \<Rightarrow> (WalkErr err, files)
      | Inr info \<Rightarrow>
          if p = targetPath \<or> p = basePath then (WalkNil, files)
          else if shouldSkip p then
            (if IsDir info then (SkipDir, files) else (WalkNil, files))
          else if IsRegular info then
            (let rel = (case Rel targetPath p of Inl err \<Rightarrow> [] | Inr r \<Rightarrow> r)
             in if rel \<noteq> [] then (WalkNil, files @ [rel]) else (WalkNil, files))
          else (WalkNil, files))"

fun list_entries :: "DirEntry list \<Rightarrow> string list \<Rightarrow> string list" where
  "list_entries [] files = files"
| "list_entries (entry # entries) files =
     (if shouldSkip (entry_Name entry) then list_entries entries files
      else if entry_IsDir entry then list_entries entries (files @ [entry_Name entry @ ''/''])
      else list_entries entries (files @ [entry_Name entry]))"

definition handleListFiles ::
  "env \<Rightarrow> (string \<Rightarrow> error + FileSystem) \<Rightarrow> (string \<rightharpoonup> argument) \<Rightarrow> CallToolResult" where
  "handleListFiles e getFileSystem arguments =
     (case arguments ''repo'' of
        Some (ArgString repo) \<Rightarrow>
          let path = (case arguments ''path'' of Some (ArgString p) \<Rightarrow> p | _ \<Rightarrow> ''.'');
              recursive = (case arguments ''recursive'' of Some (ArgBool r) \<Rightarrow> r | _ \<Rightarrow> False)
          in case getFileSystem repo of
               Inl err \<Rightarrow> ToolResultError (Error err)
             | Inr fs \<Rightarrow>
                 (case ValidatePath e (BasePath fs) path of
                    Inl err \<Rightarrow> ToolResultError (Error err)
                  | Inr relPath \<Rightarrow>
                      (case Stat fs relPath of
                         Inl err \<Rightarrow> ToolResultError (''Path does not exist: '' @ path)
                       | Inr info \<Rightarrow>
                           if \<not> IsDir info
                           then ToolResultError (''Path is not a directory: '' @ path)
                           else if recursive then
                             (let basePath = BasePath fs;
                                  targetPath = Join [basePath, relPath]
                              in case Walk fs relPath (list_visit basePath targetPath) [] of
                                   (Some err, files) \<Rightarrow> ToolResultError (Error err)
                                 | (None, files) \<Rightarrow> ToolResultListing repo path files)
                           else
                             (case ReadDir fs relPath of
                                Inl err \<Rightarrow> ToolResultError (Error err)
                              | Inr entries \<Rightarrow>
                                  ToolResultListing repo path (list_entries entries []))))
      | _ \<Rightarrow> ToolResultError ''repo parameter is required'')"

text \<open>
  \<open>filepath.Walk\<close> over a directory tree without read errors, as \<open>LocalFS.Walk\<close> calls
  it: a tree node is a name, its file info and, for a directory, its entries in lexical
  order. A directory is visited before its entries; \<open>SkipDir\<close> returned for a directory
  skips its entries, returned for a file it skips the rest of the directory the file is
  in.
\<close>

datatype tree = Tree string FileInfo "tree list"

fun walk :: "WalkFunc \<Rightarrow> string \<Rightarrow> tree \<Rightarrow> string list \<Rightarrow> walk_ret \<times> string list"
  and walk_names :: "WalkFunc \<Rightarrow> string \<Rightarrow> tree list \<Rightarrow> string list \<Rightarrow> walk_ret \<times> string list" where
  "walk walkFn path (Tree name info names) files =
     (if \<not> IsDir info then walkFn path (Inr info) files
      else
        case walkFn path (Inr info) files of
          (WalkNil, files') \<Rightarrow> walk_names walkFn path names files'
        | (err1, files') \<Rightarrow> (err1, files'))"
| "walk_names walkFn path [] files = (WalkNil, files)"
| "walk_names walkFn path (Tree name info names # rest) files =
     (case walk walkFn (Join [path, name]) (Tree name info names) files of
        (WalkNil, files') \<Rightarrow> walk_names walkFn path rest files'
      | (SkipDir, files') \<Rightarrow>
          if IsDir info then walk_names walkFn path rest files' else (SkipDir, files')
      | (WalkErr err, files') \<Rightarrow> (WalkErr err, files'))"

definition filepath_Walk ::
  "(string \<Rightarrow> error + tree) \<Rightarrow> string \<Rightarrow> WalkFunc \<Rightarrow> string list \<Rightarrow> error option \<times> string list" where
  "filepath_Walk lstat root fn files =
     (case (case lstat root of
              Inl err \<Rightarrow> fn root (Inl err) files
            | Inr t \<Rightarrow> walk fn root t files) of
        (WalkErr err, files') \<Rightarrow> (Some err, files')
      | (_, files') \<Rightarrow> (None, files'))"

section \<open>Configuration documents\<close>

text \<open>
  A parsed JSON value, as \<open>encoding/json\<close> sees a syntactically valid \<open>json.RawMessage\<close>.
  Strings are already unquoted; a number is the text of its literal.
\<close>

datatype json =
    JNull
  | JBool bool
  | JNumber string
  | JString string
  | JArray "json list"
  | JObject "(string \<times> json) list"

record Repository =
  Type :: string
  Path :: string
  Host :: string
  Port :: int
  User :: string
  KeyFile :: string

definition zero_Repository :: Repository where
  "zero_Repository = \<lparr>Type = [], Path = [], Host = [], Port = 0, User = [], KeyFile = []\<rparr>"

fun json_kind :: "json \<Rightarrow> string" where
  "json_kind JNull = ''null''"
| "json_kind (JBool b) = ''bool''"
| "json_kind (JNumber n) = ''number''"
| "json_kind (JString s) = ''string''"
| "json_kind (JArray xs) = ''array''"
| "json_kind (JObject kvs) = ''object''"

definition unmarshal_type_error :: "json \<Rightarrow> string \<Rightarrow> error" where
  "unmarshal_type_error v target =
     Err (''json: cannot unmarshal '' @ json_kind v @ '' into Go value of type '' @ target)"

text \<open>
  \<open>json.Unmarshal(raw, &pathStr)\<close> with \<open>pathStr\<close> the empty string: a JSON string is
  stored, \<open>null\<close> has no effect and is no error, every other value is a type error.
\<close>

fun unmarshal_string :: "json \<Rightarrow> error + string" where
  "unmarshal_string (JString s) = Inr s"
| "unmarshal_string JNull = Inr []"
| "unmarshal_string v = Inl (unmarshal_type_error v ''string'')"

text \<open>
  Object keys are matched with the \<open>json\<close> tags of the struct fields, exactly or after
  case folding. \<open>foldName\<close> upper-cases ASCII letters and maps the two non-ASCII runes
  that fold to an ASCII letter, the Kelvin sign (bytes E2 84 AA) and the long s (bytes
  C5 BF); every other byte is kept, since no other rune folds to ASCII.
\<close>

datatype field = FType | FPath | FHost | FPort | FUser | FKeyFile

definition field_tags :: "(string \<times> field) list" where
  "field_tags =
     [(''type'', FType), (''path'', FPath), (''host'', FHost),
      (''port'', FPort), (''user'', FUser), (''key'', FKeyFile)]"

definition to_upper :: "char \<Rightarrow> char" where
  "to_upper c =
     (if of_char c \<ge> (97::nat) \<and> of_char c \<le> (122::nat)
      then char_of (of_char c - (32::nat)) else c)"

fun foldName :: "string \<Rightarrow> string" where
  "foldName [] = []"
| "foldName (c # cs) =
     (if c = CHR 0xE2 \<and> take 2 cs = [CHR 0x84, CHR 0xAA] then CHR ''K'' # foldName (drop 2 cs)
      else if c = CHR 0xC5 \<and> take 1 cs = [CHR 0xBF] then CHR ''S'' # foldName (drop 1 cs)
      else to_upper c # foldName cs)"

definition find_field :: "string \<Rightarrow> field option" where
  "find_field key =
     (case map_of field_tags key of
        Some f \<Rightarrow> Some f
      | None \<Rightarrow> map_of (map (\<lambda>(n, f). (foldName n, f)) field_tags) (foldName key))"

definition set_string_field :: "field \<Rightarrow> string \<Rightarrow> Repository \<Rightarrow> Repository" where
  "set_string_field f s repo =
     (case f of
        FType \<Rightarrow> repo\<lparr>Type := s\<rparr>
      | FPath \<Rightarrow> repo\<lparr>Path := s\<rparr>
      | FHost \<Rightarrow> repo\<lparr>Host := s\<rparr>
      | FUser \<Rightarrow> repo\<lparr>User := s\<rparr>
      | FKeyFile \<Rightarrow> repo\<lparr>KeyFile := s\<rparr>
      | FPort \<Rightarrow> repo)"

text \<open>
  \<open>strconv.ParseInt(s, 10, 64)\<close>: an optional sign and decimal digits, in the range of a
  64-bit integer; anything else, such as a literal with a fraction or an exponent, is an
  error.
\<close>

definition is_digit :: "char \<Rightarrow> bool" where
  "is_digit c = ((48::nat) \<le> of_char c \<and> of_char c \<le> (57::nat))"

definition ParseInt :: "string \<Rightarrow> int option" where
  "ParseInt s =
     (let (neg, ds) =
            (case s of
               [] \<Rightarrow> (False, s)
             | c # r \<Rightarrow> if c = CHR ''-'' then (True, r)
                        else if c = CHR ''+'' then (False, r) else (False, s))
      in if ds = [] \<or> \<not> list_all is_digit ds then None
         else
           let n = foldl (\<lambda>acc c. 10 * acc + (int (of_char c) - 48)) 0 ds;
               v = (if neg then - n else n)
           in if - (2 ^ 63) \<le> v \<and> v < 2 ^ 63 then Some v else None)"

text \<open>
  The type error of a struct member names the struct, the \<open>json\<close> tag of the field and
  the Go type of the field.
\<close>

definition field_tag :: "field \<Rightarrow> string" where
  "field_tag f =
     (case f of
        FType \<Rightarrow> ''type'' | FPath \<Rightarrow> ''path'' | FHost \<Rightarrow> ''host''
      | FPort \<Rightarrow> ''port'' | FUser \<Rightarrow> ''user'' | FKeyFile \<Rightarrow> ''key'')"

definition field_type_error :: "string \<Rightarrow> field \<Rightarrow> error" where
  "field_type_error v f =
     Err (''json: cannot unmarshal '' @ v @ '' into Go struct field Repository.'' @ field_tag f
          @ '' of type '' @ (if f = FPort then ''int'' else ''string''))"

text \<open>
  One member of the object: a value of the wrong JSON type for its field is a type error
  and leaves the field as it is; \<open>null\<close> has no effect. \<open>Port\<close> is a 64-bit \<open>int\<close>.
\<close>

definition decode_field :: "field \<Rightarrow> json \<Rightarrow> Repository \<Rightarrow> error + Repository" where
  "decode_field f v repo =
     (if v = JNull then Inr repo
      else if f = FPort then
        (case v of
           JNumber lit \<Rightarrow>
             (case ParseInt lit of
                Some n \<Rightarrow> Inr (repo\<lparr>Port := n\<rparr>)
              | None \<Rightarrow> Inl (field_type_error (''number '' @ lit) f))
         | _ \<Rightarrow> Inl (field_type_error (json_kind v) f))
      else
        (case v of
           JString s \<Rightarrow> Inr (set_string_field f s repo)
         | _ \<Rightarrow> Inl (field_type_error (json_kind v) f)))"

text \<open>
  The members are decoded in order; decoding goes on after a type error, and the first
  error saved is the one returned.
\<close>

fun decode_object ::
  "(string \<times> json) list \<Rightarrow> Repository \<Rightarrow> error option \<Rightarrow> Repository \<times> error option" where
  "decode_object [] repo saved = (repo, saved)"
| "decode_object ((key, v) # kvs) repo saved =
     (case find_field key of
        None \<Rightarrow> decode_object kvs repo saved
      | Some f \<Rightarrow>
          (case decode_field f v repo of
             Inr repo' \<Rightarrow> decode_object kvs repo' saved
           | Inl err \<Rightarrow>
               decode_object kvs repo (if saved = None then Some err else saved)))"

definition unmarshal_Repository :: "json \<Rightarrow> error + Repository" where
  "unmarshal_Repository raw =
     (case raw of
        JObject kvs \<Rightarrow>
          (case decode_object kvs zero_Repository None of
             (repo, None) \<Rightarrow> Inr repo
           | (repo, Some err) \<Rightarrow> Inl err)
      | JNull \<Rightarrow> Inr zero_Repository
      | _ \<Rightarrow> Inl (unmarshal_type_error raw ''main.Repository''))"

text \<open>
  \<open>ParseRepository\<close> of repository.go. \<open>ssh_requires name f\<close> is
  \<open>fmt.Errorf("repository %s: SSH repo requires 'f'", name)\<close>.
\<close>

definition ssh_requires :: "string \<Rightarrow> string \<Rightarrow> error" where
  "ssh_requires name f =
     Err (''repository '' @ name @ '': SSH repo requires '' @ [CHR 0x27] @ f @ [CHR 0x27])"

definition ParseRepository :: "env \<Rightarrow> string \<Rightarrow> json \<Rightarrow> error + Repository" where
  "ParseRepository e name raw =
     (case unmarshal_string raw of
        Inr pathStr \<Rightarrow> Inr (zero_Repository\<lparr>Type := ''local'', Path := pathStr\<rparr>)
      | Inl _ \<Rightarrow>
          (case unmarshal_Repository raw of
             Inl err \<Rightarrow>
               Inl (Err (''failed to parse repository '' @ name @ '': '' @ Error err))
           | Inr repo0 \<Rightarrow>
               let repo1 = (if Type repo0 = [] then repo0\<lparr>Type := ''local''\<rparr> else repo0);
                   repo2 = (if Type repo1 = ''ssh'' \<and> Port repo1 = 0
                            then repo1\<lparr>Port := 22\<rparr> else repo1);
                   repo3 = (if Type repo2 = ''ssh'' \<and> KeyFile repo2 = []
                            then repo2\<lparr>KeyFile := ''~/.ssh/id_rsa''\<rparr> else repo2);
                   repo4 = (if KeyFile repo3 \<noteq> [] \<and> HasPrefix (KeyFile repo3) ''~''
                            then (case UserHomeDir e of
                                    Inr homeDir \<Rightarrow>
                                      repo3\<lparr>KeyFile := Join [homeDir, drop 1 (KeyFile repo3)]\<rparr>
                                  | Inl _ \<Rightarrow> repo3)
                            else repo3)
               in if Type repo4 = ''ssh'' then
                    (if Host repo4 = [] then Inl (ssh_requires name ''host'')
                     else if User repo4 = [] then Inl (ssh_requires name ''user'')
                     else if Path repo4 = [] then Inl (ssh_requires name ''path'')
                     else Inr repo4)
                  else Inr repo4))"

section \<open>Reloading the configuration\<close>

text \<open>
  The global state of main.go that a reload reads and writes. \<open>os.ReadFile\<close> and the
  parser of the whole document are the outcomes the running process observes;
  \<open>config.Repositories\<close> is given as the list of its entries in the order the
  \<open>range\<close> loop visits them.
\<close>

record server_state =
  repos :: "string \<rightharpoonup> Repository"
  configFilePath :: string

record config_io =
  os_ReadFile :: "string \<Rightarrow> error + string"
  Unmarshal_Config :: "string \<Rightarrow> error + (string \<times> json) list"

fun parse_repositories ::
  "env \<Rightarrow> (string \<times> json) list \<Rightarrow> (string \<rightharpoonup> Repository) \<Rightarrow> error + (string \<rightharpoonup> Repository)" where
  "parse_repositories e [] newRepos = Inr newRepos"
| "parse_repositories e ((name, raw) # rest) newRepos =
     (case ParseRepository e name raw of
        Inl err \<Rightarrow> Inl err
      | Inr repo \<Rightarrow> parse_repositories e rest (newRepos(name \<mapsto> repo)))"

definition reloadConfig ::
  "env \<Rightarrow> config_io \<Rightarrow> server_state \<Rightarrow> error option \<times> server_state" where
  "reloadConfig e io st =
     (let configPath = configFilePath st
      in case os_ReadFile io configPath of
           Inl err \<Rightarrow> (Some (Err (''failed to read config file: '' @ Error err)), st)
         | Inr data \<Rightarrow>
             (case Unmarshal_Config io data of
                Inl err \<Rightarrow> (Some (Err (''failed to parse config file: '' @ Error err)), st)
              | Inr config \<Rightarrow>
                  (case parse_repositories e config Map.empty of
                     Inl err \<Rightarrow> (Some err, st)
                   | Inr newRepos \<Rightarrow> (None, st\<lparr>repos := newRepos\<rparr>))))"

section \<open>The SSH connection pool\<close>

text \<open>\<open>%d\<close> of \<open>fmt.Sprintf\<close>: the decimal digits of an integer, with a minus sign.\<close>

definition digit_char :: "nat \<Rightarrow> char" where
  "digit_char d = ''0123456789'' ! d"

function digits :: "nat \<Rightarrow> string" where
  "digits n = (if n < 10 then [digit_char n] else digits (n div 10) @ [digit_char (n mod 10)])"
  by pat_completeness auto
termination
  by (relation "measure id") auto

definition itoa :: "int \<Rightarrow> string" where
  "itoa i = (if i < 0 then CHR ''-'' # digits (nat (- i)) else digits (nat i))"

definition connectionKey :: "Repository \<Rightarrow> string" where
  "connectionKey repo = User repo @ ''@'' @ Host repo @ '':'' @ itoa (Port repo)"

text \<open>
  A transport session and a file-transfer session are named by numbers. What the pool
  does to them is recorded in a trace; what the key file, the key parser, the network
  and the remote host answer is given by \<open>ssh_io\<close>.
\<close>

record SSHConnection =
  client :: nat
  sftp :: nat

datatype event =
    Keepalive nat
  | Dialed string nat
  | SftpOpened nat nat
  | ClientClosed nat
  | SftpClosed nat

record ssh_io =
  ReadKeyFile :: "string \<Rightarrow> error + string"
  ParsePrivateKey :: "string \<Rightarrow> error + string"
  ssh_Dial :: "string \<Rightarrow> string \<Rightarrow> string \<Rightarrow> error + nat"
  sftp_NewClient :: "nat \<Rightarrow> error + nat"
  SendRequest_keepalive :: "nat \<Rightarrow> error option"

type_synonym conns = "(string \<times> SSHConnection) list"

definition connect :: "ssh_io \<Rightarrow> Repository \<Rightarrow> event list \<Rightarrow> (error + SSHConnection) \<times> event list" where
  "connect io repo tr =
     (let keyPath = KeyFile repo
      in case ReadKeyFile io keyPath of
           Inl err \<Rightarrow>
             (Inl (Err (''failed to read SSH key '' @ keyPath @ '': '' @ Error err)), tr)
         | Inr keyData \<Rightarrow>
             (case ParsePrivateKey io keyData of
                Inl err \<Rightarrow>
                  (Inl (Err (''failed to parse SSH key '' @ keyPath @ '': '' @ Error err)), tr)
              | Inr signer \<Rightarrow>
                  let addr = Host repo @ '':'' @ itoa (Port repo)
                  in case ssh_Dial io addr (User repo) signer of
                       Inl err \<Rightarrow>
                         (Inl (Err (''failed to connect to '' @ addr @ '': '' @ Error err)), tr)
                     | Inr c \<Rightarrow>
                         (case sftp_NewClient io c of
                            Inl err \<Rightarrow>
                              (Inl (Err (''failed to create SFTP client: '' @ Error err)),
                               tr @ [Dialed addr c, ClientClosed c])
                          | Inr sftpClient \<Rightarrow>
                              (Inr \<lparr>client = c, sftp = sftpClient\<rparr>,
                               tr @ [Dialed addr c, SftpOpened c sftpClient]))))"

definition getConnection ::
  "ssh_io \<Rightarrow> Repository \<Rightarrow> conns \<Rightarrow> event list \<Rightarrow> (error + SSHConnection) \<times> conns \<times> event list" where
  "getConnection io repo p tr =
     (let key = connectionKey repo;
          create = (\<lambda>p tr.
            case connect io repo tr of
              (Inl err, tr') \<Rightarrow> (Inl err, p, tr')
            | (Inr conn, tr') \<Rightarrow> (Inr conn, AList.update key conn p, tr'))
      in case map_of p key of
           Some conn \<Rightarrow>
             (case SendRequest_keepalive io (client conn) of
                None \<Rightarrow> (Inr conn, p, tr @ [Keepalive (client conn)])
              | Some err \<Rightarrow> create (AList.delete key p) (tr @ [Keepalive (client conn)]))
         | None \<Rightarrow> create p tr)"

fun close_loop :: "conns \<Rightarrow> event list \<Rightarrow> event list" where
  "close_loop [] tr = tr"
| "close_loop ((key, conn) # rest) tr =
     close_loop rest (tr @ [SftpClosed (sftp conn), ClientClosed (client conn)])"

definition Close :: "conns \<Rightarrow> event list \<Rightarrow> conns \<times> event list" where
  "Close p tr = ([], close_loop p tr)"

section \<open>Reading a remote file\<close>

text \<open>
  An open SFTP file answers \<open>Stat\<close> with the attributes the server reports and \<open>Read\<close>,
  for a buffer of a given length, with the bytes it stored at the front of the buffer and
  its error. \<open>sftp_Read contents\<close> is the reader of a file holding \<open>contents\<close>: it fills
  the buffer as far as the file goes and reports \<open>EOF\<close> when the file ends first.
\<close>

record sftp_File =
  file_Stat :: "error + FileInfo"
  file_Read :: "nat \<Rightarrow> string \<times> error option"

definition sftp_Read :: "string \<Rightarrow> nat \<Rightarrow> string \<times> error option" where
  "sftp_Read contents len =
     (take len contents, if length contents < len then Some (Err ''EOF'') else None)"

record RemoteFS =
  sftp_Open :: "string \<Rightarrow> error + sftp_File"
  basePath :: string

definition ReplaceAll_backslash :: "string \<Rightarrow> string" where
  "ReplaceAll_backslash s = map (\<lambda>c. if c = CHR 0x5C then CHR ''/'' else c) s"

definition RemoteFS_ReadFile :: "RemoteFS \<Rightarrow> string \<Rightarrow> error + string" where
  "RemoteFS_ReadFile r path =
     (let fullPath = ReplaceAll_backslash (Join [basePath r, path])
      in case sftp_Open r fullPath of
           Inl err \<Rightarrow> Inl err
         | Inr file \<Rightarrow>
             (case file_Stat file of
                Inl err \<Rightarrow> Inl err
              | Inr stat \<Rightarrow>
                  if Size stat < 0
                  then Inl (Err ''panic: runtime error: makeslice: len out of range'')
                  else
                    let data = replicate (nat (Size stat)) (CHR 0x00);
                        (stored, err) = file_Read file (length data);
                        data = take (length data) stored @ drop (length stored) data
                    in case err of
                         None \<Rightarrow> Inr data
                       | Some err \<Rightarrow> if Error err \<noteq> ''EOF'' then Inl err else Inr data))"

section \<open>Resolved paths\<close>

text \<open>
  The vocabulary of the proofs about \<open>Clean\<close>, \<open>Join\<close> and \<open>Rel\<close>: a cleaned rooted
  path is \<open>abs_path cs\<close> for a list \<open>cs\<close> of elements that are not empty, hold no
  separator and are neither \<open>.\<close> nor \<open>..\<close>; \<open>resolve cs s\<close> walks the elements of the
  string \<open>s\<close> from the directory \<open>cs\<close>, where \<open>..\<close> at the root stays at the root;
  \<open>strip_common\<close> drops the longest common prefix of two element lists.
\<close>

definition good_elem :: "string \<Rightarrow> bool" where
  "good_elem c \<longleftrightarrow> c \<noteq> [] \<and> Separator \<notin> set c \<and> c \<noteq> ''.'' \<and> c \<noteq> ''..''"

definition abs_path :: "string list \<Rightarrow> string" where
  "abs_path cs = Separator # strings_Join cs [Separator]"

definition apply_elem :: "string list \<Rightarrow> string \<Rightarrow> string list" where
  "apply_elem cs c =
     (if c = [] \<or> c = ''.'' then cs else if c = ''..'' then butlast cs else cs @ [c])"

fun strip_common :: "string list \<Rightarrow> string list \<Rightarrow> string list \<times> string list" where
  "strip_common [] ts = ([], ts)"
| "strip_common (b # bs) [] = (b # bs, [])"
| "strip_common (b # bs) (t # ts) = (if t = b then strip_common bs ts else (b # bs, t # ts))"

definition elems_ok :: "string list \<Rightarrow> bool" where
  "elems_ok cs \<longleftrightarrow> (\<forall>c \<in> set cs. c \<noteq> [] \<and> Separator \<notin> set c)"

fun split_sep :: "string \<Rightarrow> string list" where
  "split_sep [] = [[]]"
| "split_sep (x # s) =
     (if x = Separator then [] # split_sep s
      else (x # hd (split_sep s)) # tl (split_sep s))"

definition resolve :: "string list \<Rightarrow> string \<Rightarrow> string list" where
  "resolve cs s = foldl apply_elem cs (split_sep s)"

definition good :: "string list \<Rightarrow> bool" where
  "good cs \<longleftrightarrow> (\<forall>c \<in> set cs. good_elem c)"

section \<open>Concrete instances\<close>

text \<open>A process started in \<open>/home/u\<close> and a local repository rooted at \<open>/repos/docs\<close>.\<close>

definition example_env :: env where
  "example_env = \<lparr>Getwd = Inr ''/home/u'', UserHomeDir = Inr ''/home/u''\<rparr>"

definition example_file :: FileInfo where
  "example_file = \<lparr>Size = 6, IsRegular = True, IsDir = False\<rparr>"

definition example_dir :: FileInfo where
  "example_dir = \<lparr>Size = 4096, IsRegular = False, IsDir = True\<rparr>"

definition example_git :: tree where
  "example_git = Tree ''.git'' example_dir [Tree ''config'' example_file []]"

definition example_root :: tree where
  "example_root = Tree ''docs'' example_dir [example_git, Tree ''README.md'' example_file []]"

definition example_fs :: FileSystem where
  "example_fs =
     \<lparr>BasePath = ''/repos/docs'',
      Stat = (\<lambda>p. if p = ''.git/config'' \<or> p = ''README.md'' then Inr example_file
                   else if p = ''.'' \<or> p = ''.git'' then Inr example_dir
                   else Inl (Err ''file does not exist'')),
      ReadFile = (\<lambda>p. if p = ''.git/config'' then Inr ''[core]''
                       else Inl (Err ''file does not exist'')),
      ReadDir = (\<lambda>p. if p = ''.'' then
                         Inr [\<lparr>entry_Name = ''.git'', entry_IsDir = True\<rparr>,
                              \<lparr>entry_Name = ''README.md'', entry_IsDir = False\<rparr>]
                      else if p = ''.git'' then
                         Inr [\<lparr>entry_Name = ''config'', entry_IsDir = False\<rparr>]
                      else Inl (Err ''file does not exist'')),
      Walk = (\<lambda>root. filepath_Walk
                (\<lambda>p. if p = ''/repos/docs'' then Inr example_root
                      else if p = ''/repos/docs/.git'' then Inr example_git
                      else Inl (Err ''file does not exist''))
                (Join [''/repos/docs'', root]))\<rparr>"

text \<open>
  The registry lookup of that repository under the name \<open>docs\<close>, and four
  \<open>list_files\<close> requests: for the hidden directory and for the root, each plain and
  recursive.
\<close>

definition example_registry :: "string \<Rightarrow> error + FileSystem" where
  "example_registry repoName =
     (if repoName = ''docs'' then Inr example_fs
      else Inl (Err (''unknown repository: '' @ repoName)))"

definition list_git :: "string \<rightharpoonup> argument" where
  "list_git = [''repo'' \<mapsto> ArgString ''docs'', ''path'' \<mapsto> ArgString ''.git'']"

definition list_git_recursive :: "string \<rightharpoonup> argument" where
  "list_git_recursive =
     [''repo'' \<mapsto> ArgString ''docs'', ''path'' \<mapsto> ArgString ''.git'',
      ''recursive'' \<mapsto> ArgBool True]"

definition list_root :: "string \<rightharpoonup> argument" where
  "list_root = [''repo'' \<mapsto> ArgString ''docs'']"

definition list_root_recursive :: "string \<rightharpoonup> argument" where
  "list_root_recursive = [''repo'' \<mapsto> ArgString ''docs'', ''recursive'' \<mapsto> ArgBool True]"

text \<open>The same process with no home directory: \<open>os.UserHomeDir\<close> fails.\<close>

definition example_env_no_home :: env where
  "example_env_no_home =
     \<lparr>Getwd = Inr ''/home/u'', UserHomeDir = Inl (Err ''$HOME is not defined'')\<rparr>"

text \<open>
  A configuration file whose document has a legacy entry and an ssh entry without a host,
  read while the registry holds one repository.
\<close>

definition example_bad_entry :: json where
  "example_bad_entry =
     JObject [(''type'', JString ''ssh''), (''user'', JString ''u''), (''path'', JString ''/srv'')]"

definition example_good_entry :: json where
  "example_good_entry =
     JObject [(''type'', JString ''ssh''), (''host'', JString ''h.example''),
              (''user'', JString ''u''), (''path'', JString ''/srv'')]"

definition example_io :: config_io where
  "example_io =
     \<lparr>os_ReadFile = (\<lambda>p. if p = ''/etc/fs-mcp/config.json'' then Inr ''document''
                          else Inl (Err ''no such file or directory'')),
      Unmarshal_Config = (\<lambda>data. Inr [(''docs'', JString ''/repos/docs''),
                                        (''svc'', example_bad_entry)])\<rparr>"

definition example_state :: server_state where
  "example_state =
     \<lparr>repos = [''docs'' \<mapsto> zero_Repository\<lparr>Type := ''local'', Path := ''/repos/docs''\<rparr>],
      configFilePath = ''/etc/fs-mcp/config.json''\<rparr>"

text \<open>
  An ssh repository, a host that accepts the transport session and refuses the
  file-transfer subsystem, and a pool of two connections.
\<close>

definition example_repo :: Repository where
  "example_repo =
     \<lparr>Type = ''ssh'', Path = ''/srv'', Host = ''h.example'', Port = 22, User = ''u'',
      KeyFile = ''/home/u/.ssh/id_rsa''\<rparr>"

definition example_ssh_io :: ssh_io where
  "example_ssh_io =
     \<lparr>ReadKeyFile = (\<lambda>p. Inr ''key material''),
      ParsePrivateKey = (\<lambda>d. Inr ''signer''),
      ssh_Dial = (\<lambda>addr user signer. Inr 7),
      sftp_NewClient = (\<lambda>c. Inl (Err ''subsystem request failed'')),
      SendRequest_keepalive = (\<lambda>c. None)\<rparr>"

definition example_pool :: conns where
  "example_pool =
     [(''u@h.example:22'', \<lparr>client = 1, sftp = 2\<rparr>),
      (''v@h.example:22'', \<lparr>client = 3, sftp = 4\<rparr>)]"

text \<open>
  Two remote files whose reported size is not the length of what a read delivers: a
  file of a process file system (size 0), and a file truncated after the stat call.
\<close>

definition example_proc_fs :: RemoteFS where
  "example_proc_fs =
     \<lparr>sftp_Open = (\<lambda>p. Inr \<lparr>file_Stat = Inr \<lparr>Size = 0, IsRegular = True, IsDir = False\<rparr>,
                             file_Read = sftp_Read ''Linux''\<rparr>),
      basePath = ''/proc''\<rparr>"

definition example_truncated_fs :: RemoteFS where
  "example_truncated_fs =
     \<lparr>sftp_Open = (\<lambda>p. Inr \<lparr>file_Stat = Inr \<lparr>Size = 4, IsRegular = True, IsDir = False\<rparr>,
                             file_Read = sftp_Read ''ab''\<rparr>),
      basePath = ''/srv''\<rparr>"

section \<open>The tree filter\<close>

text \<open>The equations of the loops are unfolded one step at a time, never by the simplifier.\<close>

declare strip_trailing.simps [simp del] clean_loop.simps [simp del] rel_loop.simps [simp del]
  backtrack_loop.simps [simp del] digits.simps [simp del]

lemma strip_trailing_id:
  "path \<noteq> [] \<Longrightarrow> last path \<noteq> Separator \<Longrightarrow> strip_trailing path = path"
  by (subst strip_trailing.simps) (simp add: IsPathSeparator_def)

lemma last_element_start_skip:
  "Separator \<notin> set b \<Longrightarrow> n \<le> length b \<Longrightarrow>
   last_element_start (anc @ b) (length anc + n) = last_element_start (anc @ b) (length anc)"
proof (induction n)
  case 0
  then show ?case by simp
next
  case (Suc n)
  then have "b ! n \<in> set b" by simp
  with Suc.prems have "b ! n \<noteq> Separator" by metis
  with Suc show ?case by (simp add: IsPathSeparator_def nth_append)
qed

lemma last_element_start_at_separator:
  "anc = [] \<or> last anc = Separator \<Longrightarrow> last_element_start (anc @ b) (length anc) = length anc"
proof (cases anc rule: rev_cases)
  case Nil
  then show ?thesis by simp
next
  case (snoc xs x)
  assume "anc = [] \<or> last anc = Separator"
  with snoc have "x = Separator" by simp
  with snoc show ?thesis by (simp add: IsPathSeparator_def nth_append)
qed

lemma Base_final_component:
  assumes "b \<noteq> []" "Separator \<notin> set b" "anc = [] \<or> last anc = Separator"
  shows "Base (anc @ b) = b"
proof -
  have "last (anc @ b) \<noteq> Separator"
    using assms(1,2) by (metis last_appendR last_in_set)
  then have strip: "strip_trailing (anc @ b) = anc @ b"
    using assms(1) by (intro strip_trailing_id) simp_all
  have "last_element_start (anc @ b) (length (anc @ b)) = length anc"
    using last_element_start_skip [OF assms(2), of "length b" anc]
      last_element_start_at_separator [OF assms(3), of b] by simp
  with strip assms(1) show ?thesis
    by (simp add: Base_def Let_def)
qed

lemma strip_trailing_separators:
  "set trail \<subseteq> {Separator} \<Longrightarrow> strip_trailing (p @ trail) = strip_trailing p"
proof (induction trail rule: rev_induct)
  case Nil
  then show ?case by simp
next
  case (snoc x xs)
  then have x: "x = Separator" and xs: "set xs \<subseteq> {Separator}" by auto
  have "strip_trailing (p @ xs @ [x]) = strip_trailing (p @ xs)"
    by (subst strip_trailing.simps) (simp add: x IsPathSeparator_def butlast_append)
  with snoc.IH [OF xs] show ?case by simp
qed

lemma Base_final_component_trailing:
  assumes "b \<noteq> []" "Separator \<notin> set b" "anc = [] \<or> last anc = Separator"
    and "set trail \<subseteq> {Separator}"
  shows "Base (anc @ b @ trail) = b"
proof -
  have "last (anc @ b) \<noteq> Separator"
    using assms(1,2) by (metis last_appendR last_in_set)
  then have "strip_trailing (anc @ b) = anc @ b"
    using assms(1) by (intro strip_trailing_id) simp_all
  with strip_trailing_separators [OF assms(4), of "anc @ b"]
  have strip: "strip_trailing (anc @ b @ trail) = anc @ b" by simp
  have "last_element_start (anc @ b) (length (anc @ b)) = length anc"
    using last_element_start_skip [OF assms(2), of "length b" anc]
      last_element_start_at_separator [OF assms(3), of b] by simp
  with strip assms(1) show ?thesis
    by (simp add: Base_def Let_def)
qed

text \<open>
  C3: \<open>shouldSkip\<close> holds of a name exactly when its base component starts with a dot or
  is \<open>node_modules\<close>; the comparison is on bytes, so it is case-sensitive. The base
  component is what \<open>filepath.Base\<close> returns: the last element of the name, after
  any trailing separators are dropped.
\<close>

theorem shouldSkip_iff:
  "(shouldSkip name \<longleftrightarrow> HasPrefix (Base name) ''.'' \<or> Base name = ''node_modules'')
   \<and> (\<forall>anc b trail.
         name = anc @ b @ trail \<and> (anc = [] \<or> last anc = Separator)
         \<and> b \<noteq> [] \<and> Separator \<notin> set b \<and> set trail \<subseteq> {Separator}
         \<longrightarrow> Base name = b)"
proof -
  have "shouldSkip name \<longleftrightarrow> HasPrefix (Base name) ''.'' \<or> Base name = ''node_modules''"
    by (simp add: shouldSkip_def Let_def)
  moreover have "Base name = b"
    if "name = anc @ b @ trail" "anc = [] \<or> last anc = Separator" "b \<noteq> []"
      "Separator \<notin> set b" "set trail \<subseteq> {Separator}" for anc b trail
    using that Base_final_component_trailing [of b anc trail] by simp
  ultimately show ?thesis by blast
qed

theorem shouldSkip_iff_witness:
  "Base ''src/node_modules/'' = ''node_modules''
   \<and> shouldSkip ''src/node_modules/''
   \<and> Base ''my.node_modules'' = ''my.node_modules''
   \<and> \<not> shouldSkip ''my.node_modules''"
proof -
  have sep: "Separator \<notin> set ''node_modules''" "Separator \<notin> set ''my.node_modules''"
    "last ''src/'' = Separator" "set ''/'' \<subseteq> {Separator}"
    by (simp_all add: Separator_def)
  from shouldSkip_iff [of "''src/node_modules/''"] sep
  have b1: "Base ''src/node_modules/'' = ''node_modules''"
    by (elim conjE allE [of _ "''src/''"] allE [of _ "''node_modules''"] allE [of _ "''/''"]) simp
  from shouldSkip_iff [of "''my.node_modules''"] sep
  have b2: "Base ''my.node_modules'' = ''my.node_modules''"
    by (elim conjE allE [of _ "[]"] allE [of _ "''my.node_modules''"] allE [of _ "[]"]) simp
  from shouldSkip_iff [of "''src/node_modules/''"] b1 have "shouldSkip ''src/node_modules/''"
    by simp
  moreover from shouldSkip_iff [of "''my.node_modules''"] b2
  have "\<not> shouldSkip ''my.node_modules''"
    by (simp add: HasPrefix_def)
  ultimately show ?thesis using b1 b2 by blast
qed


lemma shouldSkip_examples:
  "shouldSkip ''.git''" "shouldSkip ''node_modules''" "\<not> shouldSkip ''my.node_modules''"
  "\<not> shouldSkip ''Node_Modules''" "shouldSkip ''src/node_modules''" "shouldSkip []"
  by code_simp+

lemma shouldSkip_final_component:
  assumes "b \<noteq> []" "Separator \<notin> set b" "anc = [] \<or> last anc = Separator"
  shows "shouldSkip (anc @ b) \<longleftrightarrow> HasPrefix b ''.'' \<or> b = ''node_modules''"
  using Base_final_component [OF assms] by (simp add: shouldSkip_def Let_def)

lemma SplitN2_cut:
  "CHR ''/'' \<notin> set repo \<Longrightarrow> SplitN2 (repo @ ''/'' @ file) = [repo, file]"
  by (simp add: SplitN2_def takeWhile_append1 dropWhile_append1 takeWhile_eq_all_conv
      dropWhile_eq_Nil_conv dropWhile_append takeWhile_append)

text \<open>
  C9, as amended: the access check of \<open>read_file\<close> and of the resource reader looks at
  the final component of the validated relative path only. Whatever the ancestors
  \<open>anc\<close> are (hidden, \<open>node_modules\<close>), a regular file whose own name \<open>b\<close> is neither
  hidden nor \<open>node_modules\<close> passes the check, and both handlers return its content.
  Nothing is said about listings.
\<close>

theorem read_handlers_check_final_component_only:
  assumes b: "b \<noteq> []" "Separator \<notin> set b" "\<not> HasPrefix b ''.''" "b \<noteq> ''node_modules''"
    and args: "arguments ''repo'' = Some (ArgString repo)"
      "arguments ''file'' = Some (ArgString file)"
    and uri: "CHR ''/'' \<notin> set repo" "file \<noteq> []"
    and fs: "getFileSystem repo = Inr fs"
    and valid: "ValidatePath e (BasePath fs) file = Inr (anc @ [Separator] @ b)"
    and stat: "Stat fs (anc @ [Separator] @ b) = Inr info" "IsRegular info"
    and content: "ReadFile fs (anc @ [Separator] @ b) = Inr content"
  shows "\<not> shouldSkip (anc @ [Separator] @ b)
     \<and> handleReadFile e getFileSystem arguments
         = ToolResultText (''File: '' @ repo @ ''/'' @ file @ [CHR 0x0A, CHR 0x0A] @ content)
     \<and> handleReadResourceTemplate e getFileSystem (''repo://'' @ repo @ ''/'' @ file)
         = Inr content"
proof -
  have skip: "\<not> shouldSkip (anc @ [Separator] @ b)"
    using shouldSkip_final_component [of b "anc @ [Separator]"] b by simp
  have tool: "handleReadFile e getFileSystem arguments
      = ToolResultText (''File: '' @ repo @ ''/'' @ file @ [CHR 0x0A, CHR 0x0A] @ content)"
    using args fs valid stat content skip by (simp add: handleReadFile_def)
  have parts: "SplitN2 (repo @ ''/'' @ file) = [repo, file]"
    using uri(1) by (rule SplitN2_cut)
  have res: "handleReadResourceTemplate e getFileSystem (''repo://'' @ repo @ ''/'' @ file)
      = Inr content"
    using parts uri(2) fs valid stat content skip
    by (simp add: handleReadResourceTemplate_def HasPrefix_def Let_def)
  from skip tool res show ?thesis by blast
qed

theorem read_handlers_check_final_component_only_witness:
  "ValidatePath example_env (BasePath example_fs) ''.git/config'' = Inr ''.git/config''
   \<and> shouldSkip ''.git''
   \<and> \<not> shouldSkip ''.git/config''
   \<and> handleReadFile example_env (\<lambda>r. Inr example_fs)
         [''repo'' \<mapsto> ArgString ''docs'', ''file'' \<mapsto> ArgString ''.git/config'']
       = ToolResultText (''File: docs/.git/config'' @ [CHR 0x0A, CHR 0x0A] @ ''[core]'')
   \<and> handleReadResourceTemplate example_env (\<lambda>r. Inr example_fs) ''repo://docs/.git/config''
       = Inr ''[core]''"
proof -
  have valid: "ValidatePath example_env (BasePath example_fs) ''.git/config''
      = Inr (''.git'' @ [Separator] @ ''config'')"
    by code_simp
  have hidden: "shouldSkip ''.git''"
    by code_simp
  have b: "Separator \<notin> set ''config''" "\<not> HasPrefix ''config'' ''.''"
    by (simp_all add: Separator_def HasPrefix_def)
  have stat: "Stat example_fs (''.git'' @ [Separator] @ ''config'')
      = Inr \<lparr>Size = 6, IsRegular = True, IsDir = False\<rparr>"
    by (simp add: example_fs_def example_file_def Separator_def)
  have content: "ReadFile example_fs (''.git'' @ [Separator] @ ''config'') = Inr ''[core]''"
    by (simp add: example_fs_def Separator_def)
  show ?thesis
    using read_handlers_check_final_component_only
      [of "''config''"
          "[''repo'' \<mapsto> ArgString ''docs'', ''file'' \<mapsto> ArgString ''.git/config'']"
          "''docs''" "''.git/config''" "\<lambda>r. Inr example_fs" example_fs example_env
          "''.git''" "\<lparr>Size = 6, IsRegular = True, IsDir = False\<rparr>" "''[core]''",
       OF _ b(1) b(2) _ _ _ _ _ _ valid stat _ content]
      valid hidden
    by (simp add: Separator_def)
qed

text \<open>
  C9, as stated, adds that a regular file inside \<open>.git\<close> never appears in listings or
  walks. \<open>handleListFiles\<close> applies \<open>shouldSkip\<close> to the entries it finds, not to the
  directory it is asked for, and its walk exempts the root: a listing of the repository
  root leaves \<open>.git\<close> out, a listing of \<open>.git\<close> itself shows \<open>config\<close>, plain or
  recursive.
\<close>

theorem listing_of_hidden_directory_counterexample:
  "handleListFiles example_env example_registry list_git
     = ToolResultListing ''docs'' ''.git'' [''config'']
   \<and> handleListFiles example_env example_registry list_git_recursive
     = ToolResultListing ''docs'' ''.git'' [''config'']
   \<and> handleListFiles example_env example_registry list_root
     = ToolResultListing ''docs'' ''.'' [''README.md'']
   \<and> handleListFiles example_env example_registry list_root_recursive
     = ToolResultListing ''docs'' ''.'' [''README.md'']"
  by code_simp

section \<open>Parsing a repository entry\<close>

lemma ParseRepository_string:
  "ParseRepository e name (JString p)
     = Inr \<lparr>Type = ''local'', Path = p, Host = [], Port = 0, User = [], KeyFile = []\<rparr>"
  by (simp add: ParseRepository_def zero_Repository_def)

lemma ParseRepository_object:
  "ParseRepository e name (JObject kvs) =
     (case unmarshal_Repository (JObject kvs) of
        Inl err \<Rightarrow> Inl (Err (''failed to parse repository '' @ name @ '': '' @ Error err))
      | Inr r0 \<Rightarrow>
          let ty = (if Type r0 = [] then ''local'' else Type r0);
              port = (if ty = ''ssh'' \<and> Port r0 = 0 then 22 else Port r0);
              key0 = (if ty = ''ssh'' \<and> KeyFile r0 = [] then ''~/.ssh/id_rsa'' else KeyFile r0);
              key = (if HasPrefix key0 ''~''
                     then (case UserHomeDir e of
                             Inr homeDir \<Rightarrow> Join [homeDir, drop 1 key0]
                           | Inl _ \<Rightarrow> key0)
                     else key0)
          in if ty = ''ssh'' \<and> Host r0 = [] then Inl (ssh_requires name ''host'')
             else if ty = ''ssh'' \<and> User r0 = [] then Inl (ssh_requires name ''user'')
             else if ty = ''ssh'' \<and> Path r0 = [] then Inl (ssh_requires name ''path'')
             else Inr (r0\<lparr>Type := ty, Port := port, KeyFile := key\<rparr>))"
proof (cases "unmarshal_Repository (JObject kvs)")
  case (Inl err)
  then show ?thesis by (simp add: ParseRepository_def)
next
  case (Inr r0)
  define ty where "ty = (if Type r0 = [] then ''local'' else Type r0)"
  define port where "port = (if ty = ''ssh'' \<and> Port r0 = 0 then 22 else Port r0)"
  define key0 where
    "key0 = (if ty = ''ssh'' \<and> KeyFile r0 = [] then ''~/.ssh/id_rsa'' else KeyFile r0)"
  define key where
    "key = (if HasPrefix key0 ''~''
            then (case UserHomeDir e of
                    Inr homeDir \<Rightarrow> Join [homeDir, drop 1 key0] | Inl _ \<Rightarrow> key0)
            else key0)"
  define repo1 where "repo1 = (if Type r0 = [] then r0\<lparr>Type := ''local''\<rparr> else r0)"
  define repo2 where
    "repo2 = (if Type repo1 = ''ssh'' \<and> Port repo1 = 0 then repo1\<lparr>Port := 22\<rparr> else repo1)"
  define repo3 where
    "repo3 = (if Type repo2 = ''ssh'' \<and> KeyFile repo2 = []
              then repo2\<lparr>KeyFile := ''~/.ssh/id_rsa''\<rparr> else repo2)"
  define repo4 where
    "repo4 = (if KeyFile repo3 \<noteq> [] \<and> HasPrefix (KeyFile repo3) ''~''
              then (case UserHomeDir e of
                      Inr homeDir \<Rightarrow> repo3\<lparr>KeyFile := Join [homeDir, drop 1 (KeyFile repo3)]\<rparr>
                    | Inl _ \<Rightarrow> repo3)
              else repo3)"
  have r1: "repo1 = r0\<lparr>Type := ty\<rparr>"
    by (simp add: repo1_def ty_def)
  have r2: "repo2 = r0\<lparr>Type := ty, Port := port\<rparr>"
    unfolding repo2_def r1 port_def by simp
  have r3: "repo3 = r0\<lparr>Type := ty, Port := port, KeyFile := key0\<rparr>"
    unfolding repo3_def r2 key0_def by simp
  have nohome: "\<not> HasPrefix [] ''~''" by (simp add: HasPrefix_def)
  have r4: "repo4 = r0\<lparr>Type := ty, Port := port, KeyFile := key\<rparr>"
  proof (cases "HasPrefix key0 ''~''")
    case True
    with nohome have "key0 \<noteq> []" by auto
    with True show ?thesis
      unfolding repo4_def r3 key_def by (cases "UserHomeDir e") simp_all
  next
    case False
    then show ?thesis unfolding repo4_def r3 key_def by simp
  qed
  have parse: "ParseRepository e name (JObject kvs) =
      (if Type repo4 = ''ssh'' then
         (if Host repo4 = [] then Inl (ssh_requires name ''host'')
          else if User repo4 = [] then Inl (ssh_requires name ''user'')
          else if Path repo4 = [] then Inl (ssh_requires name ''path'')
          else Inr repo4)
       else Inr repo4)"
    unfolding ParseRepository_def Inr repo4_def repo3_def repo2_def repo1_def
    by (simp add: Let_def)
  have "ParseRepository e name (JObject kvs) =
      (if ty = ''ssh'' \<and> Host r0 = [] then Inl (ssh_requires name ''host'')
       else if ty = ''ssh'' \<and> User r0 = [] then Inl (ssh_requires name ''user'')
       else if ty = ''ssh'' \<and> Path r0 = [] then Inl (ssh_requires name ''path'')
       else Inr (r0\<lparr>Type := ty, Port := port, KeyFile := key\<rparr>))"
    unfolding parse r4 by simp
  then show ?thesis
    unfolding Inr ty_def port_def key0_def key_def by (simp add: Let_def)
qed

lemma ParseRepository_not_object:
  "ParseRepository e name JNull = Inr (zero_Repository\<lparr>Type := ''local'', Path := []\<rparr>)"
  "ParseRepository e name (JBool b) = Inl (Err (''failed to parse repository '' @ name @ '': ''
       @ Error (unmarshal_type_error (JBool b) ''main.Repository'')))"
  "ParseRepository e name (JNumber n) = Inl (Err (''failed to parse repository '' @ name @ '': ''
       @ Error (unmarshal_type_error (JNumber n) ''main.Repository'')))"
  "ParseRepository e name (JArray xs) = Inl (Err (''failed to parse repository '' @ name @ '': ''
       @ Error (unmarshal_type_error (JArray xs) ''main.Repository'')))"
  by (simp_all add: ParseRepository_def unmarshal_Repository_def)

lemma ParseRepository_ssh_invariant:
  assumes "ParseRepository e name raw = Inr repo" "Type repo = ''ssh''"
  shows "Host repo \<noteq> [] \<and> User repo \<noteq> [] \<and> Path repo \<noteq> [] \<and> Port repo \<noteq> 0"
proof (cases raw)
  case (JObject kvs)
  from assms(1) obtain r0 where r0: "unmarshal_Repository (JObject kvs) = Inr r0"
    unfolding JObject ParseRepository_object by (cases "unmarshal_Repository (JObject kvs)") auto
  define ty where "ty = (if Type r0 = [] then ''local'' else Type r0)"
  define port where "port = (if ty = ''ssh'' \<and> Port r0 = 0 then 22 else Port r0)"
  from assms(1) obtain key where
    res: "(if ty = ''ssh'' \<and> Host r0 = [] then Inl (ssh_requires name ''host'')
       else if ty = ''ssh'' \<and> User r0 = [] then Inl (ssh_requires name ''user'')
       else if ty = ''ssh'' \<and> Path r0 = [] then Inl (ssh_requires name ''path'')
       else Inr (r0\<lparr>Type := ty, Port := port, KeyFile := key\<rparr>)) = Inr repo"
    unfolding JObject ParseRepository_object r0 ty_def port_def by (simp add: Let_def)
  then have repo: "repo = r0\<lparr>Type := ty, Port := port, KeyFile := key\<rparr>"
    by (simp split: if_splits)
  with assms(2) have ssh: "ty = ''ssh''" by simp
  with res have "Host r0 \<noteq> []" "User r0 \<noteq> []" "Path r0 \<noteq> []"
    by (auto split: if_splits)
  moreover have "port \<noteq> 0" using ssh by (simp add: port_def)
  ultimately show ?thesis by (simp add: repo)
qed (use assms in \<open>auto simp: ParseRepository_string ParseRepository_not_object zero_Repository_def\<close>)

lemma ParseRepository_error_names_repository:
  assumes "ParseRepository e name raw = Inl err"
  shows "\<exists>before after. Error err = before @ name @ after"
proof -
  have failed: "\<exists>before after. Error err = before @ name @ after"
    if "err = Err (''failed to parse repository '' @ name @ '': '' @ m)" for m
  proof -
    from that have "Error err = ''failed to parse repository '' @ name @ ('': '' @ m)"
      by simp
    then show ?thesis by blast
  qed
  have requires: "\<exists>before after. Error err = before @ name @ after"
    if "err = ssh_requires name f" for f
  proof -
    from that have "Error err
        = ''repository '' @ name @ ('': SSH repo requires '' @ [CHR 0x27] @ f @ [CHR 0x27])"
      by (simp add: ssh_requires_def)
    then show ?thesis by blast
  qed
  show ?thesis
  proof (cases raw)
    case (JObject kvs)
    show ?thesis
    proof (cases "unmarshal_Repository (JObject kvs)")
      case (Inl uerr)
      with assms have "err = Err (''failed to parse repository '' @ name @ '': '' @ Error uerr)"
        unfolding JObject ParseRepository_object by simp
      then show ?thesis by (rule failed)
    next
      case (Inr r0)
      with assms have "err = ssh_requires name ''host'' \<or> err = ssh_requires name ''user''
          \<or> err = ssh_requires name ''path''"
        unfolding JObject ParseRepository_object by (auto simp: Let_def split: if_splits)
      then show ?thesis using requires by blast
    qed
  next
    case JNull
    with assms show ?thesis by (simp add: ParseRepository_not_object)
  next
    case (JString p)
    with assms show ?thesis by (simp add: ParseRepository_string)
  next
    case (JBool b)
    with assms have "err = Err (''failed to parse repository '' @ name @ '': ''
       @ Error (unmarshal_type_error (JBool b) ''main.Repository''))"
      by (simp only: ParseRepository_not_object sum.inject)
    then show ?thesis by (rule failed)
  next
    case (JNumber n)
    with assms have "err = Err (''failed to parse repository '' @ name @ '': ''
       @ Error (unmarshal_type_error (JNumber n) ''main.Repository''))"
      by (simp only: ParseRepository_not_object sum.inject)
    then show ?thesis by (rule failed)
  next
    case (JArray xs)
    with assms have "err = Err (''failed to parse repository '' @ name @ '': ''
       @ Error (unmarshal_type_error (JArray xs) ''main.Repository''))"
      by (simp only: ParseRepository_not_object sum.inject)
    then show ?thesis by (rule failed)
  qed
qed

text \<open>
  C7, as amended: a bare JSON string is a local repository with that path. A structured
  object gets the defaults (type \<open>local\<close>; for ssh, port 22 and key file
  \<open>~/.ssh/id_rsa\<close>); a leading tilde of the key file is replaced by the home directory
  when \<open>os.UserHomeDir\<close> succeeds and the key file is kept as written when it fails;
  the object is then validated: an ssh repository with an empty host, user or path is
  rejected. An accepted ssh repository has all three and a port, and every error names
  the repository.
\<close>

theorem ParseRepository_defaults_then_validation:
  "ParseRepository e name (JString p)
     = Inr \<lparr>Type = ''local'', Path = p, Host = [], Port = 0, User = [], KeyFile = []\<rparr>
   \<and> ParseRepository e name (JObject kvs) =
       (case unmarshal_Repository (JObject kvs) of
          Inl err \<Rightarrow> Inl (Err (''failed to parse repository '' @ name @ '': '' @ Error err))
        | Inr r0 \<Rightarrow>
            let ty = (if Type r0 = [] then ''local'' else Type r0);
                port = (if ty = ''ssh'' \<and> Port r0 = 0 then 22 else Port r0);
                key0 = (if ty = ''ssh'' \<and> KeyFile r0 = [] then ''~/.ssh/id_rsa''
                        else KeyFile r0);
                key = (if HasPrefix key0 ''~''
                       then (case UserHomeDir e of
                               Inr homeDir \<Rightarrow> Join [homeDir, drop 1 key0]
                             | Inl _ \<Rightarrow> key0)
                       else key0)
            in if ty = ''ssh'' \<and> Host r0 = [] then Inl (ssh_requires name ''host'')
               else if ty = ''ssh'' \<and> User r0 = [] then Inl (ssh_requires name ''user'')
               else if ty = ''ssh'' \<and> Path r0 = [] then Inl (ssh_requires name ''path'')
               else Inr (r0\<lparr>Type := ty, Port := port, KeyFile := key\<rparr>))
   \<and> (\<forall>repo. ParseRepository e name raw = Inr repo \<longrightarrow> Type repo = ''ssh'' \<longrightarrow>
         Host repo \<noteq> [] \<and> User repo \<noteq> [] \<and> Path repo \<noteq> [] \<and> Port repo \<noteq> 0)
   \<and> (\<forall>err. ParseRepository e name raw = Inl err \<longrightarrow>
         (\<exists>before after. Error err = before @ name @ after))"
  using ParseRepository_string [of e name p] ParseRepository_object [of e name kvs]
    ParseRepository_ssh_invariant [of e name raw]
    ParseRepository_error_names_repository [of e name raw]
  by blast

theorem ParseRepository_defaults_then_validation_witness:
  "ParseRepository example_env ''svc'' example_good_entry = Inr example_repo
   \<and> Host example_repo \<noteq> [] \<and> User example_repo \<noteq> [] \<and> Path example_repo \<noteq> []
   \<and> Port example_repo \<noteq> 0
   \<and> ParseRepository example_env ''svc'' example_bad_entry = Inl (ssh_requires ''svc'' ''host'')
   \<and> (\<exists>before after. Error (ssh_requires ''svc'' ''host'') = before @ ''svc'' @ after)"
proof -
  have good: "ParseRepository example_env ''svc'' example_good_entry = Inr example_repo"
    by code_simp
  have ssh: "Type example_repo = ''ssh''"
    by (simp add: example_repo_def)
  have bad: "ParseRepository example_env ''svc'' example_bad_entry
      = Inl (ssh_requires ''svc'' ''host'')"
    by code_simp
  from ParseRepository_defaults_then_validation
         [of example_env "''svc''" "[]" "[]" example_good_entry] good ssh
  have "Host example_repo \<noteq> [] \<and> User example_repo \<noteq> [] \<and> Path example_repo \<noteq> []
      \<and> Port example_repo \<noteq> 0"
    by blast
  moreover from ParseRepository_defaults_then_validation
         [of example_env "''svc''" "[]" "[]" example_bad_entry] bad
  have "\<exists>before after. Error (ssh_requires ''svc'' ''host'') = before @ ''svc'' @ after"
    by blast
  ultimately show ?thesis using good bad by blast
qed

text \<open>
  C7, as stated, has the default key file tilde-expanded. Without a home directory the
  entry is accepted with the key file \<open>~/.ssh/id_rsa\<close> as it stands, and no error.
\<close>

theorem ParseRepository_no_home_counterexample:
  "ParseRepository example_env_no_home ''svc'' example_good_entry
     = Inr \<lparr>Type = ''ssh'', Path = ''/srv'', Host = ''h.example'', Port = 22, User = ''u'',
            KeyFile = ''~/.ssh/id_rsa''\<rparr>"
  by code_simp

section \<open>A failed reload\<close>

lemma parse_repositories_fails:
  "(name, raw) \<in> set config \<Longrightarrow> ParseRepository e name raw = Inl err \<Longrightarrow>
   \<exists>err'. parse_repositories e config acc = Inl err'"
proof (induction config arbitrary: acc)
  case Nil
  then show ?case by simp
next
  case (Cons entry config)
  obtain n r where entry: "entry = (n, r)" by (cases entry)
  show ?case
  proof (cases "ParseRepository e n r")
    case (Inl a)
    with entry show ?thesis by simp
  next
    case (Inr repo)
    with Cons.prems entry have "(name, raw) \<in> set config" by auto
    from Cons.IH [OF this Cons.prems(2)] Inr entry show ?thesis by simp
  qed
qed

lemma reloadConfig_error_unchanged:
  "reloadConfig e io st = (Some err, st') \<Longrightarrow> st' = st"
  by (auto simp: reloadConfig_def Let_def split: sum.splits)

text \<open>
  C2: a reload that fails, because the file cannot be read, because the document does
  not parse, or because one repository entry is rejected, returns an error and leaves
  the whole state as it was: the published map is the one published before.
\<close>

theorem reload_failure_keeps_registry:
  assumes "(\<exists>err. os_ReadFile io (configFilePath st) = Inl err)
     \<or> (\<exists>data err. os_ReadFile io (configFilePath st) = Inr data
            \<and> Unmarshal_Config io data = Inl err)
     \<or> (\<exists>data config name raw err. os_ReadFile io (configFilePath st) = Inr data
            \<and> Unmarshal_Config io data = Inr config
            \<and> (name, raw) \<in> set config \<and> ParseRepository e name raw = Inl err)"
  shows "\<exists>err. reloadConfig e io st = (Some err, st)
           \<and> repos (snd (reloadConfig e io st)) = repos st"
  using assms
proof (elim disjE exE conjE)
  fix err assume "os_ReadFile io (configFilePath st) = Inl err"
  then show ?thesis by (simp add: reloadConfig_def)
next
  fix data err
  assume "os_ReadFile io (configFilePath st) = Inr data" "Unmarshal_Config io data = Inl err"
  then show ?thesis by (simp add: reloadConfig_def)
next
  fix data config name raw err
  assume read: "os_ReadFile io (configFilePath st) = Inr data"
    and parse: "Unmarshal_Config io data = Inr config"
    and bad: "(name, raw) \<in> set config" "ParseRepository e name raw = Inl err"
  from parse_repositories_fails [OF bad] obtain err'
    where "parse_repositories e config Map.empty = Inl err'" by blast
  with read parse show ?thesis by (simp add: reloadConfig_def)
qed

lemma reloadConfig_fails_only_for_these:
  assumes "reloadConfig e io st = (Some err, st')"
  shows "(\<exists>err. os_ReadFile io (configFilePath st) = Inl err)
     \<or> (\<exists>data err. os_ReadFile io (configFilePath st) = Inr data
            \<and> Unmarshal_Config io data = Inl err)
     \<or> (\<exists>data config. os_ReadFile io (configFilePath st) = Inr data
            \<and> Unmarshal_Config io data = Inr config
            \<and> parse_repositories e config Map.empty = Inl err)"
  using assms by (auto simp: reloadConfig_def Let_def split: sum.splits)

theorem reload_failure_keeps_registry_witness:
  "ParseRepository example_env ''svc'' example_bad_entry = Inl (ssh_requires ''svc'' ''host'')
   \<and> (\<exists>err. reloadConfig example_env example_io example_state = (Some err, example_state)
         \<and> repos (snd (reloadConfig example_env example_io example_state))
             = repos example_state)"
proof -
  have bad: "ParseRepository example_env ''svc'' example_bad_entry
      = Inl (ssh_requires ''svc'' ''host'')"
    by code_simp
  have "os_ReadFile example_io (configFilePath example_state) = Inr ''document''"
    by (simp add: example_io_def example_state_def)
  moreover have "Unmarshal_Config example_io ''document''
      = Inr [(''docs'', JString ''/repos/docs''), (''svc'', example_bad_entry)]"
    by (simp add: example_io_def)
  moreover have "(''svc'', example_bad_entry)
      \<in> set [(''docs'', JString ''/repos/docs''), (''svc'', example_bad_entry)]"
    by simp
  ultimately show ?thesis
    using reload_failure_keeps_registry [of example_io example_state example_env] bad
    by blast
qed

section \<open>Teardown and failed connection attempts\<close>

lemma close_loop_trace:
  "close_loop p tr
     = tr @ concat (map (\<lambda>(key, conn). [SftpClosed (sftp conn), ClientClosed (client conn)]) p)"
  by (induction p arbitrary: tr) auto

text \<open>
  C6: \<open>Close\<close> empties the pool, and for every pooled connection it closes the
  file-transfer session and, right after it, the transport session.
\<close>

theorem Close_closes_every_connection:
  "Close p tr
     = ([], tr @ concat (map (\<lambda>(key, conn). [SftpClosed (sftp conn), ClientClosed (client conn)]) p))
   \<and> (\<forall>(key, conn) \<in> set p. \<exists>before after.
         snd (Close p tr)
           = tr @ before @ [SftpClosed (sftp conn), ClientClosed (client conn)] @ after)"
proof -
  let ?ev = "\<lambda>(key, conn). [SftpClosed (sftp conn), ClientClosed (client conn)]"
  have trace: "Close p tr = ([], tr @ concat (map ?ev p))"
    by (simp add: Close_def close_loop_trace)
  have "\<exists>before after. snd (Close p tr)
          = tr @ before @ [SftpClosed (sftp conn), ClientClosed (client conn)] @ after"
    if "(key, conn) \<in> set p" for key conn
  proof -
    from that obtain p1 p2 where "p = p1 @ (key, conn) # p2"
      by (meson split_list)
    then have "snd (Close p tr) = tr @ concat (map ?ev p1)
        @ [SftpClosed (sftp conn), ClientClosed (client conn)] @ concat (map ?ev p2)"
      using trace by simp
    then show ?thesis by blast
  qed
  with trace show ?thesis by blast
qed

theorem Close_closes_every_connection_witness:
  "Close example_pool [] = ([], [SftpClosed 2, ClientClosed 1, SftpClosed 4, ClientClosed 3])
   \<and> (\<exists>before after.
         snd (Close example_pool []) = [] @ before @ [SftpClosed 2, ClientClosed 1] @ after)
   \<and> (\<exists>before after.
         snd (Close example_pool []) = [] @ before @ [SftpClosed 4, ClientClosed 3] @ after)"
proof -
  note closed = Close_closes_every_connection [of example_pool "[]"]
  have trace: "Close example_pool []
      = ([], [SftpClosed 2, ClientClosed 1, SftpClosed 4, ClientClosed 3])"
    using closed by (simp add: example_pool_def)
  have every: "\<exists>before after. snd (Close example_pool [])
          = [] @ before @ [SftpClosed (sftp conn), ClientClosed (client conn)] @ after"
    if "(key, conn) \<in> set example_pool" for key conn
    using closed that by blast
  have "\<exists>before after. snd (Close example_pool [])
          = [] @ before @ [SftpClosed 2, ClientClosed 1] @ after"
    using every [of "''u@h.example:22''" "\<lparr>client = 1, sftp = 2\<rparr>"]
    by (simp add: example_pool_def)
  moreover have "\<exists>before after. snd (Close example_pool [])
          = [] @ before @ [SftpClosed 4, ClientClosed 3] @ after"
    using every [of "''v@h.example:22''" "\<lparr>client = 3, sftp = 4\<rparr>"]
    by (simp add: example_pool_def)
  ultimately show ?thesis using trace by blast
qed

text \<open>
  C5: when the transport session was dialed and the file-transfer session cannot be
  established, \<open>connect\<close> closes the transport session before it returns the error,
  and \<open>getConnection\<close> returns that error with nothing added to the pool.
\<close>

theorem connect_closes_transport_when_sftp_fails:
  assumes key: "ReadKeyFile io (KeyFile repo) = Inr keyData"
    and signer: "ParsePrivateKey io keyData = Inr signer"
    and dial: "ssh_Dial io (Host repo @ '':'' @ itoa (Port repo)) (User repo) signer = Inr c"
    and sftp: "sftp_NewClient io c = Inl err"
    and fresh: "map_of p (connectionKey repo) = None
      \<or> (\<exists>conn. map_of p (connectionKey repo) = Some conn
            \<and> SendRequest_keepalive io (client conn) \<noteq> None)"
  shows "connect io repo tr
      = (Inl (Err (''failed to create SFTP client: '' @ Error err)),
         tr @ [Dialed (Host repo @ '':'' @ itoa (Port repo)) c, ClientClosed c])
    \<and> (\<exists>p' tr'. getConnection io repo p tr
          = (Inl (Err (''failed to create SFTP client: '' @ Error err)), p',
             tr' @ [Dialed (Host repo @ '':'' @ itoa (Port repo)) c, ClientClosed c])
        \<and> map_of p' (connectionKey repo) = None \<and> set p' \<subseteq> set p)"
proof -
  have conn: "connect io repo t
      = (Inl (Err (''failed to create SFTP client: '' @ Error err)),
         t @ [Dialed (Host repo @ '':'' @ itoa (Port repo)) c, ClientClosed c])" for t
    using key signer dial sftp by (simp add: connect_def Let_def)
  from fresh have "\<exists>p' tr'. getConnection io repo p tr
          = (Inl (Err (''failed to create SFTP client: '' @ Error err)), p',
             tr' @ [Dialed (Host repo @ '':'' @ itoa (Port repo)) c, ClientClosed c])
        \<and> map_of p' (connectionKey repo) = None \<and> set p' \<subseteq> set p"
  proof
    assume "map_of p (connectionKey repo) = None"
    then show ?thesis by (simp add: getConnection_def Let_def conn)
  next
    assume "\<exists>conn. map_of p (connectionKey repo) = Some conn
            \<and> SendRequest_keepalive io (client conn) \<noteq> None"
    then obtain conn0 e0 where "map_of p (connectionKey repo) = Some conn0"
      "SendRequest_keepalive io (client conn0) = Some e0" by auto
    moreover have "map_of (AList.delete (connectionKey repo) p) (connectionKey repo) = None"
      by (simp add: AList.delete_conv')
    moreover have "set (AList.delete (connectionKey repo) p) \<subseteq> set p"
      by (auto simp: AList.delete_eq)
    ultimately show ?thesis
      by (simp add: getConnection_def Let_def conn)
  qed
  with conn show ?thesis by blast
qed

theorem connect_closes_transport_when_sftp_fails_witness:
  "connect example_ssh_io example_repo []
      = (Inl (Err ''failed to create SFTP client: subsystem request failed''),
         [Dialed ''h.example:22'' 7, ClientClosed 7])
   \<and> (\<exists>p' tr'. getConnection example_ssh_io example_repo [] []
          = (Inl (Err ''failed to create SFTP client: subsystem request failed''), p',
             tr' @ [Dialed ''h.example:22'' 7, ClientClosed 7])
        \<and> map_of p' (connectionKey example_repo) = None \<and> set p' \<subseteq> set [])"
proof -
  have addr: "Host example_repo @ '':'' @ itoa (Port example_repo) = ''h.example:22''"
    by code_simp
  have "ssh_Dial example_ssh_io ''h.example:22'' (User example_repo) ''signer'' = Inr 7"
    by (simp add: example_ssh_io_def)
  moreover have "ReadKeyFile example_ssh_io (KeyFile example_repo) = Inr ''key material''"
    "ParsePrivateKey example_ssh_io ''key material'' = Inr ''signer''"
    "sftp_NewClient example_ssh_io 7 = Inl (Err ''subsystem request failed'')"
    by (simp_all add: example_ssh_io_def)
  ultimately show ?thesis
    using connect_closes_transport_when_sftp_fails
      [of example_ssh_io example_repo "''key material''" "''signer''" 7
          "Err ''subsystem request failed''" "[]" "[]", unfolded addr]
    by simp
qed

section \<open>Lexical path resolution\<close>

lemma strings_Join_Cons:
  "strings_Join (e # es) sep = (if es = [] then e else e @ sep @ strings_Join es sep)"
  by (cases es) simp_all

lemma strings_Join_snoc:
  "strings_Join (cs @ [c]) sep = (if cs = [] then c else strings_Join cs sep @ sep @ c)"
  by (induction cs) (auto simp: strings_Join_Cons)

lemma strings_Join_Nil_iff:
  "\<forall>c \<in> set cs. c \<noteq> [] \<Longrightarrow> strings_Join cs sep = [] \<longleftrightarrow> cs = []"
  by (cases cs) (auto simp: strings_Join_Cons)

lemma abs_path_snoc:
  "abs_path (cs @ [c]) = (if cs = [] then Separator # c else abs_path cs @ Separator # c)"
  by (simp add: abs_path_def strings_Join_snoc)

lemma abs_path_Nil [simp]: "abs_path [] = [Separator]"
  by (simp add: abs_path_def)

lemma length_abs_path:
  "\<forall>c \<in> set cs. c \<noteq> [] \<Longrightarrow> length (abs_path cs) = Suc 0 \<longleftrightarrow> cs = []"
  by (simp add: abs_path_def strings_Join_Nil_iff)

lemma backtrack_loop_to_separator:
  "Separator \<notin> set c \<Longrightarrow> k \<le> length c \<Longrightarrow> dotdot \<le> length P \<Longrightarrow>
   backtrack_loop (P @ Separator # c) dotdot (length P + k) = length P"
proof (induction k)
  case 0
  then show ?case
    by (subst backtrack_loop.simps) (simp add: IsPathSeparator_def)
next
  case (Suc k)
  then have "c ! k \<in> set c" by simp
  with Suc.prems have "c ! k \<noteq> Separator" by metis
  with Suc show ?case
    by (subst backtrack_loop.simps) (simp add: IsPathSeparator_def nth_append)
qed

lemma backtrack_to_separator:
  assumes "Separator \<notin> set c" "dotdot \<le> length P"
  shows "backtrack (P @ Separator # c) dotdot = P"
  using backtrack_loop_to_separator [OF assms(1) _ assms(2), of "length c"]
  by (simp add: backtrack_def)

lemma backtrack_loop_to_dotdot:
  "Separator \<notin> set c \<Longrightarrow> k < length c \<Longrightarrow>
   backtrack_loop (P @ c) (length P) (length P + k) = length P"
proof (induction k)
  case 0
  then show ?case
    by (subst backtrack_loop.simps) simp
next
  case (Suc k)
  then have "c ! Suc k \<in> set c" by simp
  with Suc.prems have "c ! Suc k \<noteq> Separator" by metis
  with Suc show ?case
    by (subst backtrack_loop.simps) (simp add: IsPathSeparator_def nth_append)
qed

lemma backtrack_to_dotdot:
  assumes "Separator \<notin> set c" "c \<noteq> []"
  shows "backtrack (P @ c) (length P) = P"
proof -
  from assms(2) obtain k where k: "length c = Suc k" by (cases c) simp_all
  then have "length (P @ c) - 1 = length P + k" by simp
  moreover have "backtrack_loop (P @ c) (length P) (length P + k) = length P"
    using backtrack_loop_to_dotdot [OF assms(1), of k P] k by simp
  ultimately show ?thesis by (simp add: backtrack_def)
qed

lemma backtrack_abs_path:
  assumes "elems_ok cs" "cs \<noteq> []"
  shows "backtrack (abs_path cs) 1 = abs_path (butlast cs)"
proof -
  from assms(2) obtain ds c where cs: "cs = ds @ [c]"
    by (metis append_butlast_last_id)
  with assms(1) have c: "c \<noteq> []" "Separator \<notin> set c" and ds: "elems_ok ds"
    by (auto simp: elems_ok_def)
  show ?thesis
  proof (cases "ds = []")
    case True
    with cs c backtrack_to_dotdot [of c "[Separator]"] show ?thesis
      by (simp add: abs_path_def)
  next
    case False
    have "0 < length (abs_path ds)" by (simp add: abs_path_def)
    with False cs c(2) backtrack_to_separator [of c 1 "abs_path ds"] show ?thesis
      by (simp add: abs_path_snoc)
  qed
qed

lemma elem_split:
  assumes "Separator \<notin> set c" "r = [] \<or> hd r = Separator"
  shows "takeWhile (\<lambda>ch. \<not> IsPathSeparator ch) (c @ r) = c"
    and "dropWhile (\<lambda>ch. \<not> IsPathSeparator ch) (c @ r) = r"
proof -
  have r: "takeWhile (\<lambda>ch. \<not> IsPathSeparator ch) r = []"
    "dropWhile (\<lambda>ch. \<not> IsPathSeparator ch) r = r"
    using assms(2) by (cases r; simp add: IsPathSeparator_def)+
  have c: "\<forall>ch \<in> set c. \<not> IsPathSeparator ch"
    using assms(1) by (auto simp: IsPathSeparator_def)
  show "takeWhile (\<lambda>ch. \<not> IsPathSeparator ch) (c @ r) = c"
    using c r(1) by (simp add: takeWhile_append2)
  show "dropWhile (\<lambda>ch. \<not> IsPathSeparator ch) (c @ r) = r"
    using c r(2) by (simp add: dropWhile_append2)
qed

lemma clean_loop_separator:
  "clean_loop rooted (Separator # r) out dotdot = clean_loop rooted r out dotdot"
  by (subst clean_loop.simps) (simp add: IsPathSeparator_def)

lemma clean_loop_Nil: "clean_loop rooted [] out dotdot = out"
  by (subst clean_loop.simps) simp

lemma clean_loop_dot:
  assumes "r = [] \<or> hd r = Separator"
  shows "clean_loop rooted (CHR ''.'' # r) out dotdot = clean_loop rooted r out dotdot"
  using assms
  by (subst clean_loop.simps) (cases r; auto simp: IsPathSeparator_def Separator_def)

lemma clean_loop_dotdot:
  assumes "r = [] \<or> hd r = Separator"
  shows "clean_loop rooted (CHR ''.'' # CHR ''.'' # r) out dotdot =
     (if length out > dotdot then clean_loop rooted r (backtrack out dotdot) dotdot
      else if \<not> rooted then
        clean_loop rooted r ((if length out > 0 then out @ [Separator] else out) @ ''..'')
          (length ((if length out > 0 then out @ [Separator] else out) @ ''..''))
      else clean_loop rooted r out dotdot)"
  using assms
  by (subst clean_loop.simps) (cases r; simp add: IsPathSeparator_def Separator_def Let_def)

lemma clean_loop_default:
  assumes "rest \<noteq> []" "\<not> IsPathSeparator (hd rest)"
    and "\<not> (hd rest = CHR ''.'' \<and> (tl rest = [] \<or> IsPathSeparator (rest ! 1)))"
    and "\<not> (hd rest = CHR ''.'' \<and> rest ! 1 = CHR ''.''
            \<and> (length rest = 2 \<or> IsPathSeparator (rest ! 2)))"
  shows "clean_loop rooted rest out dotdot =
     clean_loop rooted (dropWhile (\<lambda>c. \<not> IsPathSeparator c) rest)
       ((if rooted \<and> length out \<noteq> 1 \<or> \<not> rooted \<and> length out \<noteq> 0
         then out @ [Separator] else out) @ takeWhile (\<lambda>c. \<not> IsPathSeparator c) rest) dotdot"
  by (subst clean_loop.simps) (simp only: assms if_False Let_def)

lemma clean_loop_real_elem:
  assumes c: "good_elem c" and r: "r = [] \<or> hd r = Separator"
  shows "clean_loop rooted (c @ r) out dotdot =
     clean_loop rooted r
       ((if rooted \<and> length out \<noteq> 1 \<or> \<not> rooted \<and> length out \<noteq> 0
         then out @ [Separator] else out) @ c) dotdot"
proof -
  from c have nosep: "Separator \<notin> set c" and ne: "c \<noteq> []"
    and nd: "c \<noteq> ''.''" and ndd: "c \<noteq> ''..''"
    by (simp_all add: good_elem_def)
  from ne obtain x xs where cx: "c = x # xs" by (cases c) auto
  have x: "\<not> IsPathSeparator x" using nosep cx by (auto simp: IsPathSeparator_def)
  have c2: "\<not> (hd (c @ r) = CHR ''.'' \<and> (tl (c @ r) = [] \<or> IsPathSeparator ((c @ r) ! 1)))"
  proof (cases xs)
    case Nil
    with cx nd show ?thesis by auto
  next
    case (Cons y ys)
    with cx nosep show ?thesis by (auto simp: IsPathSeparator_def)
  qed
  have c3: "\<not> (hd (c @ r) = CHR ''.'' \<and> (c @ r) ! 1 = CHR ''.''
            \<and> (length (c @ r) = 2 \<or> IsPathSeparator ((c @ r) ! 2)))"
  proof (cases xs)
    case Nil
    with cx nd r show ?thesis
      by (cases r) (auto simp: Separator_def)
  next
    case xs: (Cons y ys)
    show ?thesis
    proof (cases ys)
      case Nil
      with xs cx ndd r show ?thesis
        by (cases r) (auto simp: IsPathSeparator_def Separator_def)
    next
      case (Cons z zs)
      with xs cx nosep show ?thesis by (auto simp: IsPathSeparator_def)
    qed
  qed
  have "c @ r \<noteq> []" "\<not> IsPathSeparator (hd (c @ r))"
    using cx x by simp_all
  from clean_loop_default [OF this c2 c3] show ?thesis
    by (simp only: elem_split [OF nosep r])
qed

lemma elems_ok_apply_elem:
  "elems_ok cs \<Longrightarrow> Separator \<notin> set c \<Longrightarrow> elems_ok (apply_elem cs c)"
  by (auto simp: elems_ok_def apply_elem_def dest: in_set_butlastD)

lemma clean_loop_rooted_elem:
  assumes c: "Separator \<notin> set c" and r: "r = [] \<or> hd r = Separator" and cs: "elems_ok cs"
  shows "clean_loop True (c @ r) (abs_path cs) 1
       = clean_loop True r (abs_path (apply_elem cs c)) 1"
proof -
  consider "c = []" | "c = ''.''" | "c = ''..''" | "good_elem c"
    using c by (auto simp: good_elem_def)
  then show ?thesis
  proof cases
    case 1
    then show ?thesis by (simp add: apply_elem_def)
  next
    case 2
    then show ?thesis using clean_loop_dot [OF r] by (simp add: apply_elem_def)
  next
    case 3
    show ?thesis
    proof (cases "cs = []")
      case True
      with 3 clean_loop_dotdot [OF r, of True "abs_path cs" 1] show ?thesis
        by (simp add: apply_elem_def)
    next
      case False
      with cs have "length (abs_path cs) \<noteq> 1"
        by (simp add: length_abs_path elems_ok_def)
      moreover have "length (abs_path cs) \<ge> 1" by (simp add: abs_path_def)
      ultimately have "length (abs_path cs) > 1" by linarith
      with 3 clean_loop_dotdot [OF r, of True "abs_path cs" 1]
        backtrack_abs_path [OF cs False]
      show ?thesis by (simp add: apply_elem_def)
    qed
  next
    case 4
    then have ap: "apply_elem cs c = cs @ [c]"
      by (auto simp: apply_elem_def good_elem_def)
    have "(if length (abs_path cs) \<noteq> 1 then abs_path cs @ [Separator] else abs_path cs) @ c
        = abs_path (cs @ [c])"
      using cs by (auto simp: abs_path_snoc length_abs_path elems_ok_def)
    with clean_loop_real_elem [OF 4 r, of True "abs_path cs" 1] ap
    show ?thesis by simp
  qed
qed

lemma clean_loop_rooted_elems:
  assumes "\<forall>c \<in> set es. Separator \<notin> set c" "elems_ok cs" "r = [] \<or> hd r = Separator"
  shows "clean_loop True (strings_Join es [Separator] @ r) (abs_path cs) 1
       = clean_loop True r (abs_path (foldl apply_elem cs es)) 1"
  using assms
proof (induction es arbitrary: cs)
  case Nil
  then show ?case by simp
next
  case (Cons e es)
  have e: "Separator \<notin> set e" using Cons.prems(1) by simp
  have ok: "elems_ok (apply_elem cs e)"
    using Cons.prems(2) e by (rule elems_ok_apply_elem)
  show ?case
  proof (cases "es = []")
    case True
    with clean_loop_rooted_elem [OF e Cons.prems(3) Cons.prems(2)] show ?thesis by simp
  next
    case False
    have "clean_loop True (strings_Join (e # es) [Separator] @ r) (abs_path cs) 1
        = clean_loop True (e @ Separator # strings_Join es [Separator] @ r) (abs_path cs) 1"
      using False by (simp add: strings_Join_Cons)
    also have "\<dots> = clean_loop True (Separator # strings_Join es [Separator] @ r)
        (abs_path (apply_elem cs e)) 1"
      using clean_loop_rooted_elem [OF e _ Cons.prems(2), of "Separator # strings_Join es [Separator] @ r"]
      by simp
    also have "\<dots> = clean_loop True (strings_Join es [Separator] @ r)
        (abs_path (apply_elem cs e)) 1"
      by (rule clean_loop_separator)
    also have "\<dots> = clean_loop True r (abs_path (foldl apply_elem (apply_elem cs e) es)) 1"
      using Cons.IH [OF _ ok Cons.prems(3)] Cons.prems(1) by simp
    finally show ?thesis by simp
  qed
qed

lemma split_sep_nonempty [simp]: "split_sep s \<noteq> []"
  by (induction s) auto

lemma split_sep_no_separator: "\<forall>e \<in> set (split_sep s). Separator \<notin> set e"
proof (induction s)
  case Nil
  then show ?case by simp
next
  case (Cons x s)
  obtain e es where es: "split_sep s = e # es"
    by (cases "split_sep s") auto
  with Cons show ?case by auto
qed

lemma strings_Join_split_sep: "strings_Join (split_sep s) [Separator] = s"
proof (induction s)
  case Nil
  then show ?case by simp
next
  case (Cons x s)
  obtain e es where es: "split_sep s = e # es"
    by (cases "split_sep s") auto
  with Cons show ?case by (auto simp: strings_Join_Cons)
qed

lemma split_sep_at_separator:
  "split_sep (a @ Separator # b) = split_sep a @ split_sep b"
proof (induction a)
  case Nil
  then show ?case by simp
next
  case (Cons x a)
  obtain e es where es: "split_sep a = e # es"
    by (cases "split_sep a") auto
  with Cons show ?case by auto
qed

lemma split_sep_elem:
  "Separator \<notin> set d \<Longrightarrow> split_sep d = [d]"
  by (induction d) auto

lemma split_sep_join:
  "ds \<noteq> [] \<Longrightarrow> \<forall>d \<in> set ds. Separator \<notin> set d \<Longrightarrow>
   split_sep (strings_Join ds [Separator]) = ds"
proof (induction ds)
  case Nil
  then show ?case by simp
next
  case (Cons d ds)
  show ?case
  proof (cases "ds = []")
    case True
    with Cons.prems show ?thesis by (simp add: split_sep_elem)
  next
    case False
    with Cons show ?thesis
      by (simp add: strings_Join_Cons split_sep_at_separator split_sep_elem)
  qed
qed

lemma good_elems_ok: "good cs \<Longrightarrow> elems_ok cs"
  by (auto simp: good_def elems_ok_def good_elem_def)

lemma good_apply_elem:
  "good cs \<Longrightarrow> Separator \<notin> set c \<Longrightarrow> good (apply_elem cs c)"
  by (auto simp: good_def apply_elem_def good_elem_def dest: in_set_butlastD)

lemma good_foldl:
  "good cs \<Longrightarrow> \<forall>e \<in> set es. Separator \<notin> set e \<Longrightarrow> good (foldl apply_elem cs es)"
  by (induction es arbitrary: cs) (auto simp: good_apply_elem)

lemma good_resolve: "good cs \<Longrightarrow> good (resolve cs s)"
  unfolding resolve_def by (rule good_foldl) (simp_all add: split_sep_no_separator)

lemma good_Nil [simp]: "good []"
  by (simp add: good_def)

lemma foldl_apply_good: "good ds \<Longrightarrow> foldl apply_elem cs ds = cs @ ds"
  by (induction ds arbitrary: cs) (auto simp: good_def good_elem_def apply_elem_def)

lemma resolve_join_good: "good ds \<Longrightarrow> resolve cs (strings_Join ds [Separator]) = cs @ ds"
proof (cases "ds = []")
  case True
  then show ?thesis by (simp add: resolve_def apply_elem_def)
next
  case False
  assume "good ds"
  then have "\<forall>d \<in> set ds. Separator \<notin> set d" by (auto simp: good_def good_elem_def)
  with False \<open>good ds\<close> show ?thesis
    by (simp add: resolve_def split_sep_join foldl_apply_good)
qed

lemma resolve_at_separator: "resolve cs (a @ Separator # b) = resolve (resolve cs a) b"
  by (simp add: resolve_def split_sep_at_separator)

lemma resolve_dot: "resolve cs ''.'' = cs"
  by (simp add: resolve_def apply_elem_def Separator_def)

lemma clean_loop_rooted:
  assumes "elems_ok cs"
  shows "clean_loop True s (abs_path cs) 1 = abs_path (resolve cs s)"
  using clean_loop_rooted_elems [OF split_sep_no_separator assms, of "[]" s]
  by (simp add: strings_Join_split_sep clean_loop_Nil resolve_def)

lemma Clean_rooted: "Clean (Separator # s) = abs_path (resolve [] s)"
  using clean_loop_rooted [of "[]" s]
  by (simp add: Clean_def IsPathSeparator_def elems_ok_def abs_path_def)

lemma Clean_abs_path: "good cs \<Longrightarrow> Clean (abs_path cs) = abs_path cs"
  using Clean_rooted [of "strings_Join cs [Separator]"]
  by (simp add: abs_path_def resolve_join_good)

lemma IsAbs_iff: "IsAbs p \<longleftrightarrow> (\<exists>s. p = Separator # s)"
  by (cases p) (auto simp: IsAbs_def HasPrefix_def Separator_def)

lemma IsAbs_abs_path [simp]: "IsAbs (abs_path cs)"
  by (simp add: IsAbs_iff abs_path_def)

lemma Join_rooted:
  "Join [Separator # s, r] = abs_path (resolve (resolve [] s) r)"
  using Clean_rooted [of "s @ Separator # r"] by (simp add: resolve_at_separator)

lemma Join_abs_path:
  "good B \<Longrightarrow> Join [abs_path B, r] = abs_path (resolve B r)"
  using Join_rooted [of "strings_Join B [Separator]" r]
  by (simp add: abs_path_def resolve_join_good)

lemma Abs_rooted:
  assumes "Abs e base = Inr ab" "\<forall>wd. Getwd e = Inr wd \<longrightarrow> IsAbs wd"
  shows "\<exists>B. good B \<and> ab = abs_path B"
proof (cases "IsAbs base")
  case True
  then obtain s where "base = Separator # s" by (auto simp: IsAbs_iff)
  with True assms(1) have "ab = abs_path (resolve [] s)"
    by (simp add: Abs_def Clean_rooted)
  then show ?thesis using good_resolve [OF good_Nil] by blast
next
  case False
  with assms(1) obtain wd where wd: "Getwd e = Inr wd" and ab: "ab = Join [wd, base]"
    by (auto simp: Abs_def split: sum.splits)
  from wd assms(2) obtain w where "wd = Separator # w" by (auto simp: IsAbs_iff)
  with ab have "ab = abs_path (resolve (resolve [] w) base)"
    by (simp only: Join_rooted)
  then show ?thesis using good_resolve [OF good_resolve [OF good_Nil]] by blast
qed

lemma Abs_abs_path: "good T \<Longrightarrow> Abs e (abs_path T) = Inr (abs_path T)"
  by (simp add: Abs_def Clean_abs_path)

lemma join_head:
  assumes "Separator \<notin> set b"
  shows "takeWhile (\<lambda>c. c \<noteq> Separator) (strings_Join (b # bs) [Separator]) = b"
    and "drop 1 (dropWhile (\<lambda>c. c \<noteq> Separator) (strings_Join (b # bs) [Separator]))
         = strings_Join bs [Separator]"
proof -
  have b: "\<forall>c \<in> set b. c \<noteq> Separator" using assms by auto
  show "takeWhile (\<lambda>c. c \<noteq> Separator) (strings_Join (b # bs) [Separator]) = b"
    using b by (cases "bs = []") (simp_all add: strings_Join_Cons takeWhile_append2)
  show "drop 1 (dropWhile (\<lambda>c. c \<noteq> Separator) (strings_Join (b # bs) [Separator]))
         = strings_Join bs [Separator]"
  proof (cases "bs = []")
    case True
    have d: "dropWhile (\<lambda>c. c \<noteq> Separator) b = []"
      using b by (simp add: dropWhile_eq_Nil_conv)
    show ?thesis unfolding True strings_Join.simps d by simp
  next
    case False
    with b show ?thesis by (simp add: strings_Join_Cons dropWhile_append2)
  qed
qed

lemma rel_loop_step:
  "base \<noteq> [] \<or> targ \<noteq> [] \<Longrightarrow>
   rel_loop base targ =
     (if takeWhile (\<lambda>c. c \<noteq> Separator) targ \<noteq> takeWhile (\<lambda>c. c \<noteq> Separator) base
      then (base, takeWhile (\<lambda>c. c \<noteq> Separator) base, targ)
      else rel_loop (drop 1 (dropWhile (\<lambda>c. c \<noteq> Separator) base))
                    (drop 1 (dropWhile (\<lambda>c. c \<noteq> Separator) targ)))"
  by (subst rel_loop.simps) (simp add: Let_def)

lemma join_nonempty: "good (b # bs) \<Longrightarrow> strings_Join (b # bs) [Separator] \<noteq> []"
  by (auto simp: good_def good_elem_def strings_Join_Cons)

lemma good_Cons: "good (b # bs) \<longleftrightarrow> good_elem b \<and> good bs"
  by (simp add: good_def)

lemma rel_loop_join:
  "good B \<Longrightarrow> good T \<Longrightarrow>
   rel_loop (strings_Join B [Separator]) (strings_Join T [Separator]) =
     (case strip_common B T of
        (B', T') \<Rightarrow> (strings_Join B' [Separator],
                      if B' \<noteq> [] then hd B' else [],
                      strings_Join T' [Separator]))"
proof (induction B T rule: strip_common.induct)
  case (3 b bs t ts)
  from "3.prems" have b: "Separator \<notin> set b" and t: "Separator \<notin> set t"
    and bs: "good bs" and ts: "good ts"
    by (simp_all add: good_Cons good_elem_def)
  have ne: "strings_Join (b # bs) [Separator] \<noteq> [] \<or> strings_Join (t # ts) [Separator] \<noteq> []"
    using "3.prems" join_nonempty by simp
  note step = rel_loop_step [OF ne, unfolded join_head [OF b] join_head [OF t]]
  show ?case
  proof (cases "t = b")
    case True
    with step have "rel_loop (strings_Join (b # bs) [Separator]) (strings_Join (t # ts) [Separator])
        = rel_loop (strings_Join bs [Separator]) (strings_Join ts [Separator])"
      by simp
    with "3.IH" [OF True bs ts] True show ?thesis by simp
  next
    case False
    with step have "rel_loop (strings_Join (b # bs) [Separator]) (strings_Join (t # ts) [Separator])
        = (strings_Join (b # bs) [Separator], b, strings_Join (t # ts) [Separator])"
      by simp
    with False show ?thesis by simp
  qed
next
  case (1 ts)
  show ?case
  proof (cases ts)
    case Nil
    then show ?thesis by (subst rel_loop.simps) simp
  next
    case (Cons t ts')
    with "1.prems" have t: "Separator \<notin> set t" "t \<noteq> []"
      by (simp_all add: good_Cons good_elem_def)
    have "strings_Join [] [Separator] \<noteq> [] \<or> strings_Join (t # ts') [Separator] \<noteq> []"
      using "1.prems" Cons join_nonempty by simp
    from rel_loop_step [OF this, unfolded join_head [OF t(1)]] t(2) Cons
    show ?thesis by simp
  qed
next
  case (2 b bs)
  then have b: "Separator \<notin> set b" "b \<noteq> []"
    by (simp_all add: good_Cons good_elem_def)
  have "strings_Join (b # bs) [Separator] \<noteq> [] \<or> strings_Join [] [Separator] \<noteq> []"
    using "2.prems" join_nonempty by simp
  from rel_loop_step [OF this, unfolded join_head [OF b(1)]] b(2)
  show ?case by simp
qed

lemma rel_loop_abs_path:
  "rel_loop (abs_path B) (abs_path T)
     = rel_loop (strings_Join B [Separator]) (strings_Join T [Separator])"
  by (subst rel_loop.simps) (simp add: abs_path_def)

lemma strip_common_prefix:
  "strip_common B T = (B', T') \<Longrightarrow>
   \<exists>P. B = P @ B' \<and> T = P @ T' \<and> (B' = [] \<or> T' = [] \<or> hd B' \<noteq> hd T')"
proof (induction B T rule: strip_common.induct)
  case (3 b bs t ts)
  show ?case
  proof (cases "t = b")
    case True
    with "3.prems" have "strip_common bs ts = (B', T')" by simp
    from "3.IH" [OF True this] obtain P
      where "bs = P @ B'" "ts = P @ T'" "B' = [] \<or> T' = [] \<or> hd B' \<noteq> hd T'" by blast
    with True have "b # bs = (b # P) @ B' \<and> t # ts = (b # P) @ T'
        \<and> (B' = [] \<or> T' = [] \<or> hd B' \<noteq> hd T')" by simp
    then show ?thesis by blast
  next
    case False
    with "3.prems" have "B' = b # bs" "T' = t # ts" by simp_all
    with False have "b # bs = [] @ B' \<and> t # ts = [] @ T'
        \<and> (B' = [] \<or> T' = [] \<or> hd B' \<noteq> hd T')" by simp
    then show ?thesis by blast
  qed
next
  case (1 ts)
  then show ?case by simp
next
  case (2 b bs)
  then show ?case by simp
qed

lemma strip_common_append: "strip_common (P @ B) (P @ T) = strip_common B T"
  by (induction P) simp_all

lemma strip_common_Nil: "strip_common [] T = ([], T)"
  by simp

lemma join_Nil_iff: "good B \<Longrightarrow> strings_Join B [Separator] = [] \<longleftrightarrow> B = []"
  by (cases B) (auto simp: good_def good_elem_def strings_Join_Cons)

lemma split_sep_join_good:
  assumes "good B" "B \<noteq> []"
  shows "split_sep (strings_Join B [Separator]) = B"
proof -
  from assms(1) have "\<forall>d \<in> set B. Separator \<notin> set d"
    by (auto simp: good_def good_elem_def)
  with assms(2) show ?thesis by (rule split_sep_join)
qed

lemma join_inject:
  assumes "good B" "good T" "strings_Join B [Separator] = strings_Join T [Separator]"
  shows "B = T"
proof (cases "B = []")
  case True
  with assms(3) have "strings_Join T [Separator] = []" by simp
  with assms(2) True show ?thesis by (simp add: join_Nil_iff)
next
  case False
  with assms(1) have "strings_Join B [Separator] \<noteq> []" by (simp add: join_Nil_iff)
  with assms(2,3) have "T \<noteq> []" by auto
  from split_sep_join_good [OF assms(1) False] split_sep_join_good [OF assms(2) this] assms(3)
  show ?thesis by metis
qed

lemma abs_path_inject: "good B \<Longrightarrow> good T \<Longrightarrow> abs_path B = abs_path T \<longleftrightarrow> B = T"
  by (auto simp: abs_path_def dest: join_inject)

lemma Rel_abs_path:
  assumes B: "good B" and T: "good T"
  shows "Rel (abs_path B) (abs_path T) =
     (if T = B then Inr ''.''
      else case strip_common B T of
             (B', T') \<Rightarrow>
               if B' \<noteq> [] then
                 Inr (''..''
                      @ concat (replicate (count_list (strings_Join B' [Separator]) Separator)
                                  (Separator # ''..''))
                      @ (if T' \<noteq> [] then Separator # strings_Join T' [Separator] else []))
               else Inr (strings_Join T' [Separator]))"
proof (cases "T = B")
  case True
  then show ?thesis by (simp add: Rel_def)
next
  case False
  obtain B' T' where sc: "strip_common B T = (B', T')"
    by (cases "strip_common B T")
  from strip_common_prefix [OF sc] obtain P where P: "B = P @ B'" "T = P @ T'" by blast
  with B T have good': "good B'" "good T'" by (auto simp: good_def)
  have hd: "B' \<noteq> [] \<Longrightarrow> hd B' \<noteq> ''..''"
    using good' by (cases B') (auto simp: good_def good_elem_def)
  have neq: "abs_path T \<noteq> abs_path B"
    using False abs_path_inject [OF T B] by simp
  have notdot: "abs_path B \<noteq> ''.''"
    by (simp add: abs_path_def Separator_def)
  have loop: "rel_loop (abs_path B) (abs_path T)
      = (strings_Join B' [Separator], if B' \<noteq> [] then hd B' else [],
         strings_Join T' [Separator])"
    by (simp add: rel_loop_abs_path rel_loop_join [OF B T] sc)
  have belem: "(if B' \<noteq> [] then hd B' else []) \<noteq> ''..''"
    using hd by auto
  have "Rel (abs_path B) (abs_path T) =
      (if strings_Join B' [Separator] \<noteq> [] then
         Inr (''..''
              @ concat (replicate (count_list (strings_Join B' [Separator]) Separator)
                          (Separator # ''..''))
              @ (if strings_Join T' [Separator] \<noteq> []
                 then Separator # strings_Join T' [Separator] else []))
       else Inr (strings_Join T' [Separator]))"
    unfolding Rel_def
    by (simp only: Clean_abs_path [OF B] Clean_abs_path [OF T] Let_def neq notdot loop belem
        if_False prod.case)
       (simp add: abs_path_def)
  then show ?thesis
    using False sc by (simp add: join_Nil_iff [OF good'(1)] join_Nil_iff [OF good'(2)])
qed

lemma strip_common_within: "strip_common B (B @ T') = ([], T')"
  using strip_common_append [of B "[]" T'] by simp

lemma strip_common_escape:
  assumes "strip_common B T = (B', T')" "take (length B) T \<noteq> B"
  shows "B' \<noteq> []"
proof
  assume "B' = []"
  with strip_common_prefix [OF assms(1)] obtain P where "B = P" "T = P @ T'" by auto
  with assms(2) show False by simp
qed

lemma HasPrefix_dotdot_up: "HasPrefix (''..'' @ rest) ''..''"
  by (simp add: HasPrefix_def)

lemma not_HasPrefix_dot: "\<not> HasPrefix ''.'' ''..''"
  by (simp add: HasPrefix_def)

lemma HasPrefix_join:
  assumes "good (t # ts)"
  shows "HasPrefix (strings_Join (t # ts) [Separator]) ''..'' \<longleftrightarrow> HasPrefix t ''..''"
proof -
  from assms obtain x xs where t: "t = x # xs" and x: "x \<noteq> Separator"
    by (cases t) (auto simp: good_def good_elem_def)
  show ?thesis
  proof (cases xs)
    case Nil
    with t x show ?thesis
      by (cases "ts = []") (auto simp: HasPrefix_def strings_Join_Cons Separator_def)
  next
    case (Cons y ys)
    with t show ?thesis
      by (cases "ts = []") (auto simp: HasPrefix_def strings_Join_Cons)
  qed
qed

lemma Rel_then_check:
  assumes B: "good B" and T: "good T"
  shows "(case Rel (abs_path B) (abs_path T) of
            Inl err \<Rightarrow> Inl (traversal req)
          | Inr relPath \<Rightarrow> if HasPrefix relPath ''..'' then Inl (traversal req) else Inr (f relPath))
       = (if take (length B) T = B then
            (let T' = drop (length B) T
             in if T' = [] then Inr (f ''.'')
                else if HasPrefix (hd T') ''..'' then Inl (traversal req)
                else Inr (f (strings_Join T' [Separator])))
          else Inl (traversal req))"
proof (cases "take (length B) T = B")
  case False
  obtain B' T' where sc: "strip_common B T = (B', T')"
    by (cases "strip_common B T")
  from strip_common_escape [OF sc False] have "B' \<noteq> []" .
  moreover from False have "T \<noteq> B" by auto
  ultimately show ?thesis
    using False sc by (simp add: Rel_abs_path [OF B T] HasPrefix_def)
next
  case True
  then obtain T' where T': "T = B @ T'"
    by (metis append_take_drop_id)
  show ?thesis
  proof (cases "T' = []")
    case True
    with T' have "T = B" by simp
    with True T' Rel_abs_path [OF B B] show ?thesis
      by (simp add: not_HasPrefix_dot)
  next
    case False
    then obtain t ts where ts: "T' = t # ts" by (cases T') auto
    with T T' have "good (t # ts)" by (auto simp: good_def)
    from HasPrefix_join [OF this] False T' ts Rel_abs_path [OF B T] show ?thesis
      by (simp add: strip_common_within)
  qed
qed

lemma validators_resolved:
  assumes wd: "\<forall>wd. Getwd e = Inr wd \<longrightarrow> IsAbs wd" and ab: "Abs e base = Inr ab"
  obtains B where "good B" "ab = abs_path B"
    and "ValidatePath e base req =
       (if take (length B) (resolve B req) = B then
          (let T' = drop (length B) (resolve B req)
           in if T' = [] then Inr ''.''
              else if HasPrefix (hd T') ''..'' then Inl (traversal req)
              else Inr (strings_Join T' [Separator]))
        else Inl (traversal req))"
    and "validatePath e base req =
       (if take (length B) (resolve B req) = B then
          (let T' = drop (length B) (resolve B req)
           in if T' = [] then Inr (abs_path (resolve B req))
              else if HasPrefix (hd T') ''..'' then Inl (traversal req)
              else Inr (abs_path (resolve B req)))
        else Inl (traversal req))"
proof -
  from Abs_rooted [OF ab wd] obtain B where B: "good B" "ab = abs_path B" by blast
  let ?T = "resolve B req"
  have T: "good ?T" using B(1) by (rule good_resolve)
  have ab': "Abs e base = Inr (abs_path B)"
    using ab B(2) by simp
  have target: "Join [abs_path B, req] = abs_path ?T"
    using B(1) by (rule Join_abs_path)
  have absT: "Abs e (abs_path ?T) = Inr (abs_path ?T)"
    using T by (rule Abs_abs_path)
  have V: "ValidatePath e base req =
      (case Rel (abs_path B) (abs_path ?T) of
         Inl err \<Rightarrow> Inl (traversal req)
       | Inr relPath \<Rightarrow>
           if HasPrefix relPath ''..'' then Inl (traversal req) else Inr ((\<lambda>r. r) relPath))"
    by (simp only: ValidatePath_def ab' sum.case Let_def target absT traversal_def)
  have L: "validatePath e base req =
      (case Rel (abs_path B) (abs_path ?T) of
         Inl err \<Rightarrow> Inl (traversal req)
       | Inr relPath \<Rightarrow>
           if HasPrefix relPath ''..'' then Inl (traversal req)
           else Inr ((\<lambda>r. abs_path ?T) relPath))"
    by (simp only: validatePath_def ab' sum.case Let_def target absT traversal_def)
  show ?thesis
    using that [OF B V [unfolded Rel_then_check [OF B(1) T]]
                    L [unfolded Rel_then_check [OF B(1) T]]]
    by simp
qed

lemma ValidatePath_by_elements:
  assumes wd: "\<forall>wd. Getwd e = Inr wd \<longrightarrow> IsAbs wd"
    and ab: "Abs e base = Inr (abs_path B)" and B: "good B"
  shows "Join [abs_path B, req] = abs_path (resolve B req)"
    and "ValidatePath e base req =
       (if take (length B) (resolve B req) = B then
          (let T' = drop (length B) (resolve B req)
           in if T' = [] then Inr ''.''
              else if HasPrefix (hd T') ''..'' then Inl (traversal req)
              else Inr (strings_Join T' [Separator]))
        else Inl (traversal req))"
proof -
  show "Join [abs_path B, req] = abs_path (resolve B req)"
    using B by (rule Join_abs_path)
  from validators_resolved [OF wd ab, of req] obtain B0
    where B0: "good B0" "abs_path B = abs_path B0"
      and V: "ValidatePath e base req =
       (if take (length B0) (resolve B0 req) = B0 then
          (let T' = drop (length B0) (resolve B0 req)
           in if T' = [] then Inr ''.''
              else if HasPrefix (hd T') ''..'' then Inl (traversal req)
              else Inr (strings_Join T' [Separator]))
        else Inl (traversal req))"
    by blast
  from B0 B have "B0 = B" by (simp add: abs_path_inject)
  with V show "ValidatePath e base req =
       (if take (length B) (resolve B req) = B then
          (let T' = drop (length B) (resolve B req)
           in if T' = [] then Inr ''.''
              else if HasPrefix (hd T') ''..'' then Inl (traversal req)
              else Inr (strings_Join T' [Separator]))
        else Inl (traversal req))"
    by simp
qed

text \<open>
  C1: a requested path that leaves the base is rejected. A name that merely starts with
  two dots resolves to an entry inside the base, \<open>/repos/docs/..foo\<close>, and is
  rejected as well, because the relative path is tested with \<open>strings.HasPrefix\<close>
  against the two bytes \<open>..\<close> and not against a \<open>..\<close> element.
\<close>

theorem ValidatePath_rejects_name_with_two_leading_dots:
  "Join [''/repos/docs'', ''..foo''] = ''/repos/docs/..foo''
   \<and> ValidatePath example_env ''/repos/docs'' ''..foo''
       = Inl (Err ''path traversal detected: ..foo'')"
  by code_simp

lemma validators_fail_alike:
  "validatePath e base req = Inl err \<longleftrightarrow> ValidatePath e base req = Inl err"
  by (simp add: ValidatePath_def validatePath_def Let_def split: sum.splits)

lemma Join_Clean_base:
  assumes "IsAbs base"
  shows "Join [base, r] = Join [Clean base, r]"
proof -
  from assms obtain s where s: "base = Separator # s" by (auto simp: IsAbs_iff)
  have "good (resolve [] s)" using good_Nil by (rule good_resolve)
  from Join_abs_path [OF this, of r] show ?thesis
    unfolding s Clean_rooted by (simp only: Join_rooted)
qed

lemma validators_success:
  assumes wd: "\<forall>wd. Getwd e = Inr wd \<longrightarrow> IsAbs wd"
    and rel: "ValidatePath e base req = Inr rel"
  shows "\<exists>absBase. Abs e base = Inr absBase
           \<and> validatePath e base req = Inr (Join [absBase, rel])"
proof (cases "Abs e base")
  case (Inl err)
  with rel show ?thesis by (simp add: ValidatePath_def)
next
  case (Inr ab)
  from validators_resolved [OF wd Inr, of req] obtain B where B: "good B" "ab = abs_path B"
    and V: "ValidatePath e base req =
       (if take (length B) (resolve B req) = B then
          (let T' = drop (length B) (resolve B req)
           in if T' = [] then Inr ''.''
              else if HasPrefix (hd T') ''..'' then Inl (traversal req)
              else Inr (strings_Join T' [Separator]))
        else Inl (traversal req))"
    and L: "validatePath e base req =
       (if take (length B) (resolve B req) = B then
          (let T' = drop (length B) (resolve B req)
           in if T' = [] then Inr (abs_path (resolve B req))
              else if HasPrefix (hd T') ''..'' then Inl (traversal req)
              else Inr (abs_path (resolve B req)))
        else Inl (traversal req))"
    by blast
  define T' where "T' = drop (length B) (resolve B req)"
  from rel V have within: "take (length B) (resolve B req) = B"
    by (auto split: if_splits)
  then have T: "resolve B req = B @ T'"
    unfolding T'_def by (metis append_take_drop_id)
  have goodT': "good T'"
    using good_resolve [OF B(1), of req] T by (auto simp: good_def)
  have relval: "rel = (if T' = [] then ''.'' else strings_Join T' [Separator])"
    and ok: "T' = [] \<or> \<not> HasPrefix (hd T') ''..''"
    using rel V within unfolding T'_def [symmetric] Let_def by (auto split: if_splits)
  have "resolve B rel = B @ T'"
    using relval goodT' by (auto simp: resolve_dot resolve_join_good)
  then have "Join [ab, rel] = abs_path (resolve B req)"
    unfolding B(2) T Join_abs_path [OF B(1)] by simp
  moreover have "validatePath e base req = Inr (abs_path (resolve B req))"
    using L within ok unfolding T'_def [symmetric] Let_def by auto
  ultimately show ?thesis using Inr by simp
qed

text \<open>
  C10, as amended: the two validators fail on the same inputs with the same error, and
  when they succeed the legacy result is the absolute form of the base path
  (\<open>filepath.Abs\<close>) joined with the relative result; for an absolute base path that
  is the base path itself joined with the relative result. The working directory that
  \<open>os.Getwd\<close> reports is an absolute path.
\<close>

theorem validatePath_agrees_with_ValidatePath:
  assumes wd: "\<forall>wd. Getwd e = Inr wd \<longrightarrow> IsAbs wd"
  shows "(\<forall>err. validatePath e base req = Inl err \<longleftrightarrow> ValidatePath e base req = Inl err)
     \<and> (\<forall>rel. ValidatePath e base req = Inr rel \<longrightarrow>
           (\<exists>absBase. Abs e base = Inr absBase
              \<and> validatePath e base req = Inr (Join [absBase, rel])))
     \<and> (IsAbs base \<longrightarrow>
           (\<forall>rel. ValidatePath e base req = Inr rel \<longrightarrow>
              validatePath e base req = Inr (Join [base, rel])))"
proof (intro conjI allI impI)
  fix err
  show "validatePath e base req = Inl err \<longleftrightarrow> ValidatePath e base req = Inl err"
    by (rule validators_fail_alike)
next
  fix rel
  assume "ValidatePath e base req = Inr rel"
  with wd show "\<exists>absBase. Abs e base = Inr absBase
      \<and> validatePath e base req = Inr (Join [absBase, rel])"
    by (rule validators_success)
next
  fix rel
  assume abs: "IsAbs base" and "ValidatePath e base req = Inr rel"
  from validators_success [OF wd this(2)] abs
  have "validatePath e base req = Inr (Join [Clean base, rel])"
    by (auto simp: Abs_def)
  with Join_Clean_base [OF abs] show "validatePath e base req = Inr (Join [base, rel])"
    by simp
qed

theorem validatePath_agrees_with_ValidatePath_witness:
  "ValidatePath example_env ''/repos/docs'' ''src/../README.md'' = Inr ''README.md''
   \<and> validatePath example_env ''/repos/docs'' ''src/../README.md''
       = Inr (Join [''/repos/docs'', ''README.md''])
   \<and> ValidatePath example_env ''/repos/docs'' ''../etc/passwd''
       = Inl (Err ''path traversal detected: ../etc/passwd'')
   \<and> validatePath example_env ''/repos/docs'' ''../etc/passwd''
       = Inl (Err ''path traversal detected: ../etc/passwd'')"
proof -
  have wd: "\<forall>wd. Getwd example_env = Inr wd \<longrightarrow> IsAbs wd"
    by (simp add: example_env_def IsAbs_def HasPrefix_def)
  have abs: "IsAbs ''/repos/docs''"
    by (simp add: IsAbs_def HasPrefix_def)
  have ok: "ValidatePath example_env ''/repos/docs'' ''src/../README.md'' = Inr ''README.md''"
    by code_simp
  have bad: "ValidatePath example_env ''/repos/docs'' ''../etc/passwd''
      = Inl (Err ''path traversal detected: ../etc/passwd'')"
    by code_simp
  from validatePath_agrees_with_ValidatePath [OF wd, of "''/repos/docs''" "''src/../README.md''"]
    abs ok
  have "validatePath example_env ''/repos/docs'' ''src/../README.md''
      = Inr (Join [''/repos/docs'', ''README.md''])"
    by blast
  moreover from validatePath_agrees_with_ValidatePath
    [OF wd, of "''/repos/docs''" "''../etc/passwd''"] bad
  have "validatePath example_env ''/repos/docs'' ''../etc/passwd''
      = Inl (Err ''path traversal detected: ../etc/passwd'')"
    by blast
  ultimately show ?thesis using ok bad by blast
qed

text \<open>
  C10, as stated, fails for a relative base path: the legacy validator returns the
  absolute target, and the base path joined with the relative result stays relative.
\<close>

theorem validatePath_relative_base_counterexample:
  "ValidatePath example_env ''repo'' ''a'' = Inr ''a''
   \<and> validatePath example_env ''repo'' ''a'' = Inr ''/home/u/repo/a''
   \<and> Join [''repo'', ''a''] = ''repo/a''
   \<and> validatePath example_env ''repo'' ''a'' \<noteq> Inr (Join [''repo'', ''a''])"
  by code_simp

section \<open>Connection keys\<close>

lemma connectionKey_same_endpoint:
  "User a = User b \<Longrightarrow> Host a = Host b \<Longrightarrow> Port a = Port b \<Longrightarrow>
   connectionKey a = connectionKey b"
  by (simp add: connectionKey_def)

lemma getConnection_shares_live_connection:
  assumes "User a = User b" "Host a = Host b" "Port a = Port b"
    and "map_of p (connectionKey a) = Some conn"
    and "SendRequest_keepalive io (client conn) = None"
  shows "getConnection io b p tr = (Inr conn, p, tr @ [Keepalive (client conn)])"
  using assms connectionKey_same_endpoint [of a b]
  by (simp add: getConnection_def Let_def)

lemma digits_small: "n < 10 \<Longrightarrow> digits n = [digit_char n]"
  by (subst digits.simps) simp

lemma digits_big: "\<not> n < 10 \<Longrightarrow> digits n = digits (n div 10) @ [digit_char (n mod 10)]"
  by (subst digits.simps) simp

lemma digit_char_in_digits: "d < 10 \<Longrightarrow> digit_char d \<in> set ''0123456789''"
  unfolding digit_char_def by (rule nth_mem) simp

lemma digits_are_digits: "set (digits n) \<subseteq> set ''0123456789''"
proof (induction n rule: digits.induct)
  case (1 n)
  show ?case
  proof (cases "n < 10")
    case True
    then show ?thesis
      using digit_char_in_digits [of n] by (simp add: digits_small)
  next
    case False
    have "n mod 10 < 10" by simp
    from digit_char_in_digits [OF this] "1.IH" [OF False] False show ?thesis
      by (simp add: digits_big)
  qed
qed

lemma digit_value: "d < 10 \<Longrightarrow> of_char (digit_char d) - (48::nat) = d"
proof -
  have "\<forall>d \<in> set [0..<10]. of_char (digit_char d) - (48::nat) = d"
    by (simp add: upt_rec digit_char_def)
  then show "d < 10 \<Longrightarrow> of_char (digit_char d) - (48::nat) = d"
    by simp
qed

lemma digits_value:
  "foldl (\<lambda>acc c. 10 * acc + (of_char c - (48::nat))) 0 (digits n) = n"
proof (induction n rule: digits.induct)
  case (1 n)
  show ?case
  proof (cases "n < 10")
    case True
    then show ?thesis
      by (simp add: digits_small digit_value)
  next
    case False
    have "n mod 10 < 10" by simp
    then have "of_char (digit_char (n mod 10)) - (48::nat) = n mod 10"
      by (rule digit_value)
    with "1.IH" [OF False] False show ?thesis
      by (simp add: digits_big)
  qed
qed

lemma digits_inject:
  assumes "digits m = digits n"
  shows "m = n"
proof -
  from assms
  have "foldl (\<lambda>acc c. 10 * acc + (of_char c - (48::nat))) 0 (digits m)
      = foldl (\<lambda>acc c. 10 * acc + (of_char c - (48::nat))) 0 (digits n)"
    by (rule arg_cong)
  then show ?thesis by (simp only: digits_value)
qed

lemma itoa_inject:
  assumes "itoa i = itoa j"
  shows "i = j"
proof -
  have nominus: "CHR ''-'' \<notin> set (digits n)" for n
    using digits_are_digits [of n] by auto
  have differ: "CHR ''-'' # digits m \<noteq> digits n" for m n
    using nominus [of n] by (metis list.set_intros(1))
  show ?thesis
  proof (cases "i < 0"; cases "j < 0")
    assume "i < 0" "j < 0"
    with assms have "nat (- i) = nat (- j)" by (simp add: itoa_def digits_inject)
    with \<open>i < 0\<close> \<open>j < 0\<close> show ?thesis by simp
  next
    assume "i < 0" "\<not> j < 0"
    with assms differ show ?thesis by (simp add: itoa_def)
  next
    assume "\<not> i < 0" "j < 0"
    with assms differ [of "nat (- j)" "nat i"] show ?thesis by (simp add: itoa_def)
  next
    assume "\<not> i < 0" "\<not> j < 0"
    with assms have "nat i = nat j" by (simp add: itoa_def digits_inject)
    with \<open>\<not> i < 0\<close> \<open>\<not> j < 0\<close> show ?thesis by simp
  qed
qed

lemma itoa_no_colon: "CHR '':'' \<notin> set (itoa i)"
  using digits_are_digits [of "nat i"] digits_are_digits [of "nat (- i)"]
  by (auto simp: itoa_def)

lemma split_at_first:
  assumes "c \<notin> set u1" "c \<notin> set u2" "u1 @ c # r1 = u2 @ c # r2"
  shows "u1 = u2 \<and> r1 = r2"
proof -
  have "takeWhile (\<lambda>x. x \<noteq> c) (u @ c # r) = u" if "c \<notin> set u" for u r
    using that by (induction u) auto
  from this [OF assms(1), of r1] this [OF assms(2), of r2] assms(3)
  have "u1 = u2" by simp
  with assms(3) show ?thesis by simp
qed

lemma split_at_last:
  assumes "c \<notin> set d1" "c \<notin> set d2" "h1 @ c # d1 = h2 @ c # d2"
  shows "h1 = h2 \<and> d1 = d2"
proof -
  from assms(3) have "rev (h1 @ c # d1) = rev (h2 @ c # d2)" by simp
  then have "rev d1 @ c # rev h1 = rev d2 @ c # rev h2" by simp
  from split_at_first [OF _ _ this] assms(1,2) show ?thesis by simp
qed

lemma connectionKey_inject_without_at:
  assumes "CHR ''@'' \<notin> set (User a)" "CHR ''@'' \<notin> set (User b)"
    and "connectionKey a = connectionKey b"
  shows "User a = User b \<and> Host a = Host b \<and> Port a = Port b"
proof -
  from assms(3) have "User a @ CHR ''@'' # (Host a @ '':'' @ itoa (Port a))
      = User b @ CHR ''@'' # (Host b @ '':'' @ itoa (Port b))"
    by (simp add: connectionKey_def)
  from split_at_first [OF assms(1,2) this]
  have user: "User a = User b"
    and rest: "Host a @ CHR '':'' # itoa (Port a) = Host b @ CHR '':'' # itoa (Port b)"
    by simp_all
  from split_at_last [OF itoa_no_colon itoa_no_colon rest]
  have "Host a = Host b" "itoa (Port a) = itoa (Port b)" by simp_all
  with user itoa_inject show ?thesis by blast
qed

text \<open>
  C4: descriptors with the same user, host and port have the same key and share the
  pooled connection, and keys of descriptors whose user names hold no \<open>@\<close> are
  distinct when user, host or port differ. The key is not injective in general: an
  \<open>@\<close> in the user name moves the boundary between user and host, so two
  descriptors that differ in user and host get one key.
\<close>

theorem connectionKey_collision:
  "connectionKey \<lparr>Type = ''ssh'', Path = ''/srv'', Host = ''c'', Port = 22, User = ''a@b'',
                   KeyFile = ''/k1''\<rparr> = ''a@b@c:22''
   \<and> connectionKey \<lparr>Type = ''ssh'', Path = ''/srv'', Host = ''b@c'', Port = 22, User = ''a'',
                     KeyFile = ''/k2''\<rparr> = ''a@b@c:22''
   \<and> ''a@b'' \<noteq> ''a'' \<and> ''c'' \<noteq> ''b@c''"
  by code_simp

section \<open>Remote reads\<close>

lemma RemoteFS_ReadFile_exact_size:
  assumes "sftp_Open r (ReplaceAll_backslash (Join [basePath r, path])) = Inr file"
    and "file_Stat file = Inr stat" "Size stat = int (length contents)"
    and "file_Read file = sftp_Read contents"
  shows "RemoteFS_ReadFile r path = Inr contents"
  using assms by (simp add: RemoteFS_ReadFile_def Let_def sftp_Read_def)

lemma RemoteFS_ReadFile_read_error:
  assumes "sftp_Open r (ReplaceAll_backslash (Join [basePath r, path])) = Inr file"
    and "file_Stat file = Inr stat" "0 \<le> Size stat"
    and "file_Read file (nat (Size stat)) = (stored, Some err)" "Error err \<noteq> ''EOF''"
  shows "RemoteFS_ReadFile r path = Inl err"
  using assms by (simp add: RemoteFS_ReadFile_def Let_def)

text \<open>
  C8: the buffer has the size the stat call reported and is returned whole, whatever the
  read stored in it. A file that delivers fewer bytes than reported comes back padded
  with zero bytes, with no error; a file that reports size 0 comes back empty.
\<close>

theorem RemoteFS_ReadFile_size_mismatch:
  "RemoteFS_ReadFile example_proc_fs ''version'' = Inr []
   \<and> RemoteFS_ReadFile example_truncated_fs ''data'' = Inr [CHR ''a'', CHR ''b'', CHR 0x00, CHR 0x00]"
  by code_simp

end
